theory Spec2Isabelle
  imports Complex_Main
begin

section \<open>JavaScript values used by the recorder component\<close>

text \<open>
  The component under study is \<^verbatim>\<open>CameraRecorder\<close> of \<^verbatim>\<open>src/App.jsx\<close> (the web
  version, with the countdown and deadline timer handles kept in refs).

  A JavaScript number is \<open>NaN\<close>, one of the two infinities, or a finite double. A
  finite double is a rational number, so \<open>Fin\<close> carries a rational. The sum and the
  product of two finite values are the exact results rounded to the nearest double,
  ties to even, as IEEE 754 prescribes, and an infinity on overflow. Negative zero is
  not kept apart from zero: the source prints and compares its numbers, and the two
  zeros print and compare alike.
\<close>

datatype jsnum = NaN | PosInf | NegInf | Fin rat

fun isFinite :: "jsnum \<Rightarrow> bool" where
  "isFinite (Fin x) = True"
| "isFinite v = False"

subsection \<open>Rounding to a double\<close>

text \<open>
  The binary exponent of a positive rational: the number of halvings that bring a
  value of at least 1 below 2, and the number of doublings that bring a value below
  1 up to 1.
\<close>

function log2_up :: "rat \<Rightarrow> nat" where
  "log2_up x = (if x < 2 then 0 else Suc (log2_up (x / 2)))"
  by auto
termination
proof (relation "measure (\<lambda>x. nat \<lfloor>x\<rfloor>)")
  show "wf (measure (\<lambda>x::rat. nat \<lfloor>x\<rfloor>))"
    by simp
next
  fix x :: rat
  assume "\<not> x < 2"
  then have "\<lfloor>x / 2\<rfloor> < \<lfloor>x\<rfloor>" "0 < \<lfloor>x\<rfloor>"
    by linarith+
  then show "(x / 2, x) \<in> measure (\<lambda>x. nat \<lfloor>x\<rfloor>)"
    by simp
qed

function log2_down :: "rat \<Rightarrow> nat" where
  "log2_down x = (if 1 \<le> x \<or> x \<le> 0 then 0 else Suc (log2_down (2 * x)))"
  by auto
termination
proof (relation "measure (\<lambda>x. nat \<lfloor>1 / x\<rfloor>)")
  show "wf (measure (\<lambda>x::rat. nat \<lfloor>1 / x\<rfloor>))"
    by simp
next
  fix x :: rat
  assume a: "\<not> (1 \<le> x \<or> x \<le> 0)"
  define y where "y = 1 / x"
  have "1 < y"
    using a by (simp add: y_def)
  then have pos: "1 \<le> \<lfloor>y\<rfloor>"
    by (simp add: le_floor_iff)
  have "y < of_int \<lfloor>y\<rfloor> + 1"
    by linarith
  moreover have "(1::rat) \<le> of_int \<lfloor>y\<rfloor>"
    using pos by linarith
  ultimately have "y / 2 < of_int \<lfloor>y\<rfloor>"
    by linarith
  then have less: "\<lfloor>y / 2\<rfloor> < \<lfloor>y\<rfloor>"
    by (simp add: floor_less_iff)
  have eq: "1 / (2 * x) = y / 2"
    by (simp add: y_def)
  have "nat \<lfloor>1 / (2 * x)\<rfloor> < nat \<lfloor>y\<rfloor>"
    unfolding eq using less pos by linarith
  then show "(2 * x, x) \<in> measure (\<lambda>x. nat \<lfloor>1 / x\<rfloor>)"
    unfolding in_measure y_def .
qed

declare log2_up.simps [simp del] log2_down.simps [simp del]

text \<open>
  The greatest power of two that is at most the positive \<open>x\<close>, and the spacing of
  the doubles around \<open>x\<close>: 52 bits below that power, and never less than the
  spacing \<open>2^-1074\<close> of the subnormal doubles.
\<close>

definition binade :: "rat \<Rightarrow> rat" where
  "binade x = (if 1 \<le> x then 2 ^ log2_up x else 1 / 2 ^ log2_down x)"

definition ulp :: "rat \<Rightarrow> rat" where
  "ulp x = max (binade \<bar>x\<bar>) (1 / 2 ^ 1022) / 2 ^ 52"

text \<open>The nearest integer, the even one on a tie.\<close>

definition round_even :: "rat \<Rightarrow> int" where
  "round_even y =
     (let f = \<lfloor>y\<rfloor>; d = y - of_int f
      in if d < 1 / 2 then f else if 1 / 2 < d then f + 1 else if even f then f else f + 1)"

text \<open>
  The double nearest to a rational: the magnitude is rounded to a whole number of
  spacings; a result of \<open>2^1024\<close> or more is an infinity.
\<close>

definition round_double :: "rat \<Rightarrow> jsnum" where
  "round_double x =
     (if x = 0 then Fin 0
      else
        (let r = of_int (round_even (\<bar>x\<bar> / ulp x)) * ulp x
         in if 2 ^ 1024 \<le> r then (if x < 0 then NegInf else PosInf)
            else Fin (if x < 0 then - r else r)))"



subsection \<open>Arithmetic and comparison\<close>

fun js_neg :: "jsnum \<Rightarrow> jsnum" where
  "js_neg NaN = NaN"
| "js_neg PosInf = NegInf"
| "js_neg NegInf = PosInf"
| "js_neg (Fin x) = Fin (- x)"

fun js_add :: "jsnum \<Rightarrow> jsnum \<Rightarrow> jsnum" where
  "js_add NaN b = NaN"
| "js_add a NaN = NaN"
| "js_add (Fin x) (Fin y) = round_double (x + y)"
| "js_add PosInf NegInf = NaN"
| "js_add NegInf PosInf = NaN"
| "js_add PosInf b = PosInf"
| "js_add NegInf b = NegInf"
| "js_add (Fin x) b = b"

definition js_sub :: "jsnum \<Rightarrow> jsnum \<Rightarrow> jsnum" where
  "js_sub a b = js_add a (js_neg b)"

fun js_sign :: "jsnum \<Rightarrow> int" where
  "js_sign NaN = 0"
| "js_sign PosInf = 1"
| "js_sign NegInf = - 1"
| "js_sign (Fin x) = (if x < 0 then - 1 else if x = 0 then 0 else 1)"

fun js_mul :: "jsnum \<Rightarrow> jsnum \<Rightarrow> jsnum" where
  "js_mul NaN b = NaN"
| "js_mul a NaN = NaN"
| "js_mul (Fin x) (Fin y) = round_double (x * y)"
| "js_mul a b =
     (if js_sign a * js_sign b = 0 then NaN
      else if js_sign a * js_sign b < 0 then NegInf else PosInf)"

fun Math_abs :: "jsnum \<Rightarrow> jsnum" where
  "Math_abs NaN = NaN"
| "Math_abs PosInf = PosInf"
| "Math_abs NegInf = PosInf"
| "Math_abs (Fin x) = Fin \<bar>x\<bar>"

text \<open>\<^verbatim>\<open>a > b\<close>: false as soon as one side is \<open>NaN\<close>.\<close>

fun js_gt :: "jsnum \<Rightarrow> jsnum \<Rightarrow> bool" where
  "js_gt NaN b = False"
| "js_gt a NaN = False"
| "js_gt (Fin x) (Fin y) = (y < x)"
| "js_gt PosInf b = (b \<noteq> PosInf)"
| "js_gt NegInf b = False"
| "js_gt (Fin x) PosInf = False"
| "js_gt (Fin x) NegInf = True"

text \<open>\<^verbatim>\<open>a <= b\<close>: again false on \<open>NaN\<close>, so it is not the negation of \<open>js_gt\<close>.\<close>

fun js_le :: "jsnum \<Rightarrow> jsnum \<Rightarrow> bool" where
  "js_le NaN b = False"
| "js_le a NaN = False"
| "js_le a b = (\<not> js_gt a b)"

fun Math_max :: "jsnum \<Rightarrow> jsnum \<Rightarrow> jsnum" where
  "Math_max NaN b = NaN"
| "Math_max a NaN = NaN"
| "Math_max a b = (if js_gt b a then b else a)"

subsection \<open>Strings of numbers\<close>

definition digit_char :: "nat \<Rightarrow> char" where
  "digit_char d = char_of (48 + d)"

fun show_nat :: "nat \<Rightarrow> string" where
  "show_nat n =
     (if n < 10 then [digit_char n]
      else show_nat (n div 10) @ [digit_char (n mod 10)])"

declare show_nat.simps [simp del]

text \<open>
  \<^verbatim>\<open>Number.prototype.toFixed(2)\<close> as ECMAScript defines it: a value that is not finite
  prints as \<open>NaN\<close>, \<open>Infinity\<close> or \<open>-Infinity\<close>; a negative value prints its sign and
  then its magnitude; a magnitude of at least \<open>10^21\<close> is printed by the generic
  number-to-string conversion (exponent notation), which depends on the double's
  neighbours and is taken as the parameter \<open>num2str\<close>; below that, \<open>n\<close> is the integer
  for which \<open>n / 100\<close> is closest to the magnitude, the larger one on a tie, printed
  with at least one digit before the point and exactly two after it.
\<close>

definition toFixed2 :: "(rat \<Rightarrow> string) \<Rightarrow> jsnum \<Rightarrow> string" where
  "toFixed2 num2str v =
     (case v of
        NaN \<Rightarrow> ''NaN''
      | PosInf \<Rightarrow> ''Infinity''
      | NegInf \<Rightarrow> ''-Infinity''
      | Fin x \<Rightarrow>
          (let s = (if x < 0 then ''-'' else '''');
               a = \<bar>x\<bar>
           in if 10 ^ 21 \<le> a then s @ num2str a
              else
                (let n = nat \<lfloor>a * 100 + 1 / 2\<rfloor>;
                     m = show_nat n;
                     m' = (if length m \<le> 2 then replicate (3 - length m) (CHR ''0'') @ m else m);
                     k = length m'
                 in s @ take (k - 2) m' @ ''.'' @ drop (k - 2) m')))"

subsection \<open>Errors, blobs and files\<close>

text \<open>
  A thrown value is an error object with a name and a message; \<^verbatim>\<open>String(e)\<close> is
  \<^verbatim>\<open>Error.prototype.toString\<close>.
\<close>

record js_error =
  err_name :: string
  err_message :: string

definition String_of_error :: "js_error \<Rightarrow> string" where
  "String_of_error e =
     (if err_name e = [] then err_message e
      else if err_message e = [] then err_name e
      else err_name e @ '': '' @ err_message e)"

text \<open>\<^verbatim>\<open>new Error(msg)\<close>.\<close>

definition new_Error :: "string \<Rightarrow> js_error" where
  "new_Error msg = \<lparr>err_name = ''Error'', err_message = msg\<rparr>"

record blob =
  blob_parts :: "nat list"
  blob_size :: nat
  blob_type :: string

text \<open>\<^verbatim>\<open>new Blob(chunks, { type })\<close>: the chunks in order.\<close>

definition new_Blob :: "blob list \<Rightarrow> string \<Rightarrow> blob" where
  "new_Blob chunks ty =
     \<lparr>blob_parts = concat (map blob_parts chunks),
      blob_size = sum_list (map blob_size chunks),
      blob_type = ty\<rparr>"

record jsfile =
  file_name :: string
  file_type :: string
  file_blob :: blob

text \<open>\<^verbatim>\<open>a || b\<close> on strings: the empty string is falsy.\<close>

definition str_or :: "string \<Rightarrow> string \<Rightarrow> string" where
  "str_or a b = (if a = [] then b else a)"

section \<open>The component's state and the platform it runs on\<close>

datatype status = Idle | Ready | Countdown | Recording | Finished | Error

text \<open>
  A \<^verbatim>\<open>MediaRecorder\<close>: its \<^verbatim>\<open>state\<close>, the stream it records, its \<^verbatim>\<open>mimeType\<close>, and
  whether its \<^verbatim>\<open>stop\<close> event is queued and not yet delivered. The handlers
  \<^verbatim>\<open>ondataavailable\<close> and \<^verbatim>\<open>onstop\<close> that \<^verbatim>\<open>beginRecording\<close> installs are the same
  closures on every recorder, so they are functions of the recorder's index.
\<close>

datatype rec_state = RInactive | RRecording | RPaused

record recorder =
  rec_state :: rec_state
  rec_stream :: nat
  rec_mimeType :: string
  stop_queued :: bool

text \<open>
  A pending timer. The countdown interval of \<^verbatim>\<open>start\<close> closes over its own
  \<^verbatim>\<open>remaining\<close> counter and the stream; the deadline timeout of \<^verbatim>\<open>beginRecording\<close>
  calls \<^verbatim>\<open>stop()\<close>. Each carries the time in milliseconds at which it is next due.
\<close>

datatype timer =
    CountdownInterval (interval_remaining: int) (interval_stream: nat) (due_at: nat)
  | StopTimeout (due_at: nat)

datatype track_state = Live | Ended

text \<open>One logged \<^verbatim>\<open>fetch\<close> call: the multipart fields of the POST.\<close>

record request =
  req_url :: string
  req_file :: jsfile
  req_filename :: string
  req_source :: string

text \<open>
  A call of \<^verbatim>\<open>ensureStream\<close> that is suspended at one of its two \<^verbatim>\<open>await\<close>s: at
  \<^verbatim>\<open>getUserMedia\<close>, or at the preview's \<^verbatim>\<open>play()\<close> with the stream it was granted.
  It was made by the camera button, whose rejection nobody handles, or by \<^verbatim>\<open>start\<close>,
  which goes on to its countdown or to its \<^verbatim>\<open>catch\<close>.
\<close>

datatype caller = ByButton | ByStart

datatype suspended = AtMedia caller | AtPlay caller nat

text \<open>
  The \<^verbatim>\<open>useState\<close> cells and \<^verbatim>\<open>useRef\<close> cells of the component under the source's
  names, then the platform: the recorders ever constructed (a recorder's index is
  its identity), the pending timers by handle, the pending animation-frame callbacks
  (each \<^verbatim>\<open>tick\<close> closure is its \<^verbatim>\<open>startedAt\<close> and its recorder), the streams handed
  out by \<^verbatim>\<open>getUserMedia\<close> with the state of their tracks, the live object URLs, the
  requests sent, the clock in milliseconds, and the suspended calls of
  \<^verbatim>\<open>ensureStream\<close>.
\<close>

record world =
  status :: status
  countdown :: int
  secondsLeft :: jsnum
  blobUrl :: "nat option"
  recordedBlob :: "blob option"
  error :: string
  isSending :: bool
  selectedFile :: "jsfile option"
  selectedDuration :: "jsnum option"
  accuracy :: "string option"
  recorderRef :: "nat option"
  chunksRef :: "blob list"
  streamRef :: "nat option"
  countdownTimerRef :: "nat option"
  stopTimerRef :: "nat option"
  recorders :: "recorder list"
  timers :: "(nat \<times> timer) list"
  next_timer :: nat
  frames :: "(nat \<times> nat) list"
  streams :: "track_state list list"
  video_srcObject :: "nat option"
  urls :: "nat list"
  next_url :: nat
  requests :: "request list"
  now :: nat
  awaiting :: "suspended list"

text \<open>The component as first rendered. Timer handles are positive, hence truthy.\<close>

definition initial :: world where
  "initial =
     \<lparr>status = Idle, countdown = 5, secondsLeft = Fin 60, blobUrl = None,
      recordedBlob = None, error = [], isSending = False, selectedFile = None,
      selectedDuration = None, accuracy = None, recorderRef = None, chunksRef = [],
      streamRef = None, countdownTimerRef = None, stopTimerRef = None,
      recorders = [], timers = [], next_timer = 1, frames = [], streams = [],
      video_srcObject = None, urls = [], next_url = 0, requests = [], now = 0,
      awaiting = []\<rparr>"

subsection \<open>Platform operations\<close>

text \<open>\<^verbatim>\<open>setInterval\<close> and \<^verbatim>\<open>setTimeout\<close> return a fresh handle.\<close>

definition set_timer :: "timer \<Rightarrow> world \<Rightarrow> nat \<times> world" where
  "set_timer t w =
     (next_timer w,
      w\<lparr>timers := timers w @ [(next_timer w, t)], next_timer := Suc (next_timer w)\<rparr>)"

text \<open>
  \<^verbatim>\<open>clearInterval\<close> and \<^verbatim>\<open>clearTimeout\<close> share one handle space; clearing a handle
  that is not pending does nothing.
\<close>

definition clear_timer :: "nat \<Rightarrow> world \<Rightarrow> world" where
  "clear_timer h w = w\<lparr>timers := filter (\<lambda>(i, t). i \<noteq> h) (timers w)\<rparr>"

text \<open>
  \<^verbatim>\<open>URL.createObjectURL\<close> and \<^verbatim>\<open>URL.revokeObjectURL\<close>; revoking a URL that is not
  live does nothing.
\<close>

definition createObjectURL :: "world \<Rightarrow> nat \<times> world" where
  "createObjectURL w =
     (next_url w, w\<lparr>urls := urls w @ [next_url w], next_url := Suc (next_url w)\<rparr>)"

definition revokeObjectURL :: "nat \<Rightarrow> world \<Rightarrow> world" where
  "revokeObjectURL u w = w\<lparr>urls := filter (\<lambda>v. v \<noteq> u) (urls w)\<rparr>"

text \<open>
  \<^verbatim>\<open>MediaRecorder.stop()\<close>: on a recorder that is \<open>inactive\<close> it throws
  \<open>InvalidStateError\<close>; otherwise the recorder becomes inactive at once and its
  \<^verbatim>\<open>stop\<close> event is queued.
\<close>

definition InvalidStateError :: js_error where
  "InvalidStateError =
     \<lparr>err_name = ''InvalidStateError'', err_message = ''The MediaRecorder's state is 'inactive'.''\<rparr>"

definition MediaRecorder_stop :: "nat \<Rightarrow> world \<Rightarrow> js_error + world" where
  "MediaRecorder_stop r w =
     (if r < length (recorders w) \<and> rec_state (recorders w ! r) \<noteq> RInactive
      then Inr (w\<lparr>recorders :=
                   (recorders w)[r := (recorders w ! r)\<lparr>rec_state := RInactive, stop_queued := True\<rparr>]\<rparr>)
      else Inl InvalidStateError)"

text \<open>\<^verbatim>\<open>rec.state === "recording"\<close> for the recorder of index \<open>r\<close>.\<close>

definition is_recording :: "world \<Rightarrow> nat \<Rightarrow> bool" where
  "is_recording w r = (r < length (recorders w) \<and> rec_state (recorders w ! r) = RRecording)"

text \<open>\<^verbatim>\<open>stream.getTracks().forEach((t) => t.stop())\<close>.\<close>

definition stop_tracks :: "nat \<Rightarrow> world \<Rightarrow> world" where
  "stop_tracks s w =
     (if s < length (streams w)
      then w\<lparr>streams := (streams w)[s := map (\<lambda>t. Ended) (streams w ! s)]\<rparr>
      else w)"

section \<open>The recording session\<close>

subsection \<open>Opening the camera\<close>

text \<open>
  What \<^verbatim>\<open>getUserMedia\<close> and the preview's \<^verbatim>\<open>play()\<close> answer when they are asked: the
  stream is granted and the preview plays, the stream is granted and \<^verbatim>\<open>play()\<close>
  rejects, or \<^verbatim>\<open>getUserMedia\<close> rejects. With such an answer as its argument,
  \<^verbatim>\<open>ensureStream\<close> and \<^verbatim>\<open>start\<close> below are the call together with the settlement of
  its \<^verbatim>\<open>await\<close>s, for the executions in which nothing else happens in between; the
  call and the settlements as separate steps follow them.
\<close>

datatype capture = Granted | GrantedPlayRejects js_error | Denied js_error

text \<open>
  The two continuations of \<^verbatim>\<open>ensureStream\<close>. When \<^verbatim>\<open>getUserMedia\<close> resolves, the new
  stream goes to \<^verbatim>\<open>streamRef\<close> and to the preview, whatever \<^verbatim>\<open>streamRef\<close> holds by
  then: the test of \<^verbatim>\<open>streamRef\<close> was made before the \<^verbatim>\<open>await\<close>. When \<^verbatim>\<open>play()\<close>
  resolves, the status becomes \<open>Ready\<close>.
\<close>

definition ensureStream_granted :: "world \<Rightarrow> nat \<times> world" where
  "ensureStream_granted w =
     (let s = length (streams w)
      in (s, w\<lparr>streams := streams w @ [[Live, Live]], streamRef := Some s,
                video_srcObject := Some s\<rparr>))"

definition ensureStream_played :: "world \<Rightarrow> world" where
  "ensureStream_played w = w\<lparr>status := Ready\<rparr>"

text \<open>
  \<^verbatim>\<open>ensureStream\<close>: the stream already held, or a new one with a video and an audio
  track. The result is the rejection or the stream, beside the world left behind.
\<close>

definition ensureStream :: "capture \<Rightarrow> world \<Rightarrow> (js_error + nat) \<times> world" where
  "ensureStream c w =
     (case streamRef w of
        Some s \<Rightarrow> (Inr s, w)
      | None \<Rightarrow>
          (case c of
             Denied e \<Rightarrow> (Inl e, w)
           | GrantedPlayRejects e \<Rightarrow>
               (let s = length (streams w)
                in (Inl e, w\<lparr>streams := streams w @ [[Live, Live]], streamRef := Some s,
                              video_srcObject := Some s\<rparr>))
           | Granted \<Rightarrow>
               (let s = length (streams w)
                in (Inr s, w\<lparr>streams := streams w @ [[Live, Live]], streamRef := Some s,
                              video_srcObject := Some s, status := Ready\<rparr>))))"

subsection \<open>Countdown, capture and stop\<close>

text \<open>
  \<^verbatim>\<open>start\<close>: clears the previous artifact and score, makes sure of the stream, and
  arms the one-second countdown interval, whose handle goes to
  \<^verbatim>\<open>countdownTimerRef\<close>. The function itself looks at no status.
\<close>

definition start :: "capture \<Rightarrow> world \<Rightarrow> world" where
  "start c w =
     (let w1 = w\<lparr>error := [], blobUrl := None, recordedBlob := None, accuracy := None\<rparr>
      in case ensureStream c w1 of
           (Inl e, w2) \<Rightarrow> w2\<lparr>error := String_of_error e, status := Error\<rparr>
         | (Inr stream, w2) \<Rightarrow>
             (let w3 = w2\<lparr>chunksRef := [], countdown := 5, status := Countdown\<rparr>;
                  (h, w4) = set_timer (CountdownInterval 5 stream (now w3 + 1000)) w3
              in w4\<lparr>countdownTimerRef := Some h\<rparr>))"

text \<open>
  The parts of \<^verbatim>\<open>start\<close> around its \<^verbatim>\<open>await\<close>: the four setters before the \<^verbatim>\<open>try\<close>,
  the arming of the countdown once \<^verbatim>\<open>ensureStream\<close> has returned the stream, and the
  \<^verbatim>\<open>catch\<close>.
\<close>

definition start_reset :: "world \<Rightarrow> world" where
  "start_reset w = w\<lparr>error := [], blobUrl := None, recordedBlob := None, accuracy := None\<rparr>"

definition start_countdown :: "nat \<Rightarrow> world \<Rightarrow> world" where
  "start_countdown stream w =
     (let w3 = w\<lparr>chunksRef := [], countdown := 5, status := Countdown\<rparr>;
          (h, w4) = set_timer (CountdownInterval 5 stream (now w3 + 1000)) w3
      in w4\<lparr>countdownTimerRef := Some h\<rparr>)"

definition start_catch :: "js_error \<Rightarrow> world \<Rightarrow> world" where
  "start_catch e w = w\<lparr>error := String_of_error e, status := Error\<rparr>"

text \<open>
  A call that suspends and its later settlement. The call of the camera button and
  the call of \<^verbatim>\<open>start\<close> run up to the \<^verbatim>\<open>await\<close> of \<^verbatim>\<open>getUserMedia\<close>: with the stream
  held they run to their end at once, without it they are suspended. A suspended
  call goes on when the promise it waits for settles, with the world as it is by
  then: a rejection goes to the caller, the grant of the stream leads to the \<^verbatim>\<open>await\<close>
  of \<^verbatim>\<open>play()\<close>, and the start of the preview ends \<^verbatim>\<open>ensureStream\<close> and returns to
  the caller.
\<close>

definition openCamera_called :: "world \<Rightarrow> world" where
  "openCamera_called w =
     (case streamRef w of
        Some s \<Rightarrow> w
      | None \<Rightarrow> w\<lparr>awaiting := awaiting w @ [AtMedia ByButton]\<rparr>)"

definition start_called :: "world \<Rightarrow> world" where
  "start_called w =
     (let w1 = start_reset w
      in case streamRef w1 of
           Some s \<Rightarrow> start_countdown s w1
         | None \<Rightarrow> w1\<lparr>awaiting := awaiting w1 @ [AtMedia ByStart]\<rparr>)"

definition drop_nth :: "nat \<Rightarrow> 'a list \<Rightarrow> 'a list" where
  "drop_nth i xs = take i xs @ drop (Suc i) xs"

definition rejected :: "caller \<Rightarrow> js_error \<Rightarrow> world \<Rightarrow> world" where
  "rejected k e w = (case k of ByButton \<Rightarrow> w | ByStart \<Rightarrow> start_catch e w)"

definition media_settles :: "nat \<Rightarrow> js_error option \<Rightarrow> world \<Rightarrow> world" where
  "media_settles i r w =
     (if i < length (awaiting w)
      then case awaiting w ! i of
             AtMedia k \<Rightarrow>
               (let w1 = w\<lparr>awaiting := drop_nth i (awaiting w)\<rparr>
                in case r of
                     Some e \<Rightarrow> rejected k e w1
                   | None \<Rightarrow>
                       (let (s, w2) = ensureStream_granted w1
                        in w2\<lparr>awaiting := awaiting w2 @ [AtPlay k s]\<rparr>))
           | AtPlay k s \<Rightarrow> w
      else w)"

definition play_settles :: "nat \<Rightarrow> js_error option \<Rightarrow> world \<Rightarrow> world" where
  "play_settles i r w =
     (if i < length (awaiting w)
      then case awaiting w ! i of
             AtPlay k s \<Rightarrow>
               (let w1 = w\<lparr>awaiting := drop_nth i (awaiting w)\<rparr>
                in case r of
                     Some e \<Rightarrow> rejected k e w1
                   | None \<Rightarrow>
                       (let w2 = ensureStream_played w1
                        in case k of ByButton \<Rightarrow> w2 | ByStart \<Rightarrow> start_countdown s w2))
           | AtMedia k \<Rightarrow> w
      else w)"

text \<open>
  What the browser's \<^verbatim>\<open>MediaRecorder\<close> does for one capture: whether the class exists,
  which container types it supports, whether the constructor or \<^verbatim>\<open>start()\<close> throws,
  and the type it chooses when none is asked for.
\<close>

record media =
  has_MediaRecorder :: bool
  isTypeSupported :: "string \<Rightarrow> bool"
  constructor_throws :: "js_error option"
  start_throws :: "js_error option"
  default_mimeType :: string

definition mime_options :: "string list" where
  "mime_options =
     [''video/webm;codecs=vp9,opus'', ''video/webm;codecs=vp8,opus'', ''video/webm'', ''video/mp4'']"

definition pickSupportedMime :: "media \<Rightarrow> string option" where
  "pickSupportedMime m =
     find (\<lambda>ty. has_MediaRecorder m \<and> isTypeSupported m ty) mime_options"

definition ReferenceError :: js_error where
  "ReferenceError = \<lparr>err_name = ''ReferenceError'', err_message = ''MediaRecorder is not defined''\<rparr>"

text \<open>\<^verbatim>\<open>new MediaRecorder(stream, opts)\<close>: a fresh inactive recorder, or a throw.\<close>

definition new_MediaRecorder :: "media \<Rightarrow> nat \<Rightarrow> string option \<Rightarrow> world \<Rightarrow> js_error + nat \<times> world" where
  "new_MediaRecorder m stream opts w =
     (if \<not> has_MediaRecorder m then Inl ReferenceError
      else case constructor_throws m of
             Some e \<Rightarrow> Inl e
           | None \<Rightarrow>
               Inr (length (recorders w),
                    w\<lparr>recorders := recorders w @
                        [\<lparr>rec_state = RInactive, rec_stream = stream,
                          rec_mimeType = (case opts of Some ty \<Rightarrow> ty | None \<Rightarrow> default_mimeType m),
                          stop_queued = False\<rparr>]\<rparr>))"

text \<open>\<^verbatim>\<open>rec.start()\<close>.\<close>

definition MediaRecorder_start :: "media \<Rightarrow> nat \<Rightarrow> world \<Rightarrow> js_error + world" where
  "MediaRecorder_start m r w =
     (case start_throws m of
        Some e \<Rightarrow> Inl e
      | None \<Rightarrow>
          (if r < length (recorders w) \<and> rec_state (recorders w ! r) = RInactive
           then Inr (w\<lparr>recorders := (recorders w)[r := (recorders w ! r)\<lparr>rec_state := RRecording\<rparr>]\<rparr>)
           else Inl InvalidStateError))"

text \<open>
  \<^verbatim>\<open>stop\<close>: the body of the \<^verbatim>\<open>try\<close>, where only \<^verbatim>\<open>recorderRef.current.stop()\<close> can
  throw, and the function with its empty \<^verbatim>\<open>catch\<close>. It sets no status.
\<close>

definition stop_body :: "world \<Rightarrow> js_error + world" where
  "stop_body w =
     (case (case recorderRef w of
              Some r \<Rightarrow> if is_recording w r then MediaRecorder_stop r w else Inr w
            | None \<Rightarrow> Inr w) of
        Inl e \<Rightarrow> Inl e
      | Inr w1 \<Rightarrow>
          (let w2 = (case stopTimerRef w1 of Some h \<Rightarrow> clear_timer h w1 | None \<Rightarrow> w1);
               w3 = (case countdownTimerRef w2 of Some h \<Rightarrow> clear_timer h w2 | None \<Rightarrow> w2)
           in Inr w3))"

definition stop :: "world \<Rightarrow> world" where
  "stop w = (case stop_body w of Inl e \<Rightarrow> w | Inr w' \<Rightarrow> w')"

text \<open>
  \<^verbatim>\<open>beginRecording\<close>: one recorder constructed and started, the status and the
  remaining seconds set, the presentation clock requested, and the 60-second
  deadline armed with its handle in \<^verbatim>\<open>stopTimerRef\<close>. A throw of the constructor or
  of \<^verbatim>\<open>start()\<close> is caught and shown.
\<close>

definition beginRecording :: "media \<Rightarrow> nat \<Rightarrow> world \<Rightarrow> world" where
  "beginRecording m stream w =
     (case new_MediaRecorder m stream (pickSupportedMime m) w of
        Inl e \<Rightarrow> w\<lparr>error := String_of_error e, status := Error\<rparr>
      | Inr (r, w1) \<Rightarrow>
          (let w2 = w1\<lparr>recorderRef := Some r\<rparr>
           in case MediaRecorder_start m r w2 of
                Inl e \<Rightarrow> w2\<lparr>error := String_of_error e, status := Error\<rparr>
              | Inr w3 \<Rightarrow>
                  (let w4 = w3\<lparr>status := Recording, secondsLeft := Fin 60\<rparr>;
                       w5 = w4\<lparr>frames := frames w4 @ [(now w4, r)]\<rparr>;
                       (h, w6) = set_timer (StopTimeout (now w5 + 60000)) w5
                   in w6\<lparr>stopTimerRef := Some h\<rparr>)))"

text \<open>
  The presentation clock \<^verbatim>\<open>tick\<close> of one capture, a closure over \<^verbatim>\<open>startedAt\<close> and
  the recorder: it shows the seconds left and asks for the next frame while there
  are some and the recorder records.
\<close>

definition tick :: "nat \<times> nat \<Rightarrow> world \<Rightarrow> world" where
  "tick c w =
     (case c of
        (startedAt, r) \<Rightarrow>
          (let elapsed = round_double ((of_nat (now w) - of_nat startedAt) / 1000);
               left = Math_max (Fin 0) (js_sub (Fin 60) elapsed);
               w1 = w\<lparr>secondsLeft := left\<rparr>
           in if js_le left (Fin 0) \<or> \<not> is_recording w1 r then w1
              else w1\<lparr>frames := frames w1 @ [(startedAt, r)]\<rparr>))"

text \<open>An animation frame runs the callbacks requested before it.\<close>

definition animation_frame :: "world \<Rightarrow> world" where
  "animation_frame w = fold tick (frames w) (w\<lparr>frames := []\<rparr>)"

text \<open>
  A pending timer fires, at its due time or later; a handle that is not pending
  runs nothing. The countdown callback decrements its counter, shows it, and at zero
  clears the interval whose handle is in \<^verbatim>\<open>countdownTimerRef\<close> and begins the capture.
  The deadline callback calls \<^verbatim>\<open>stop()\<close>.
\<close>

definition fire_timer :: "media \<Rightarrow> nat \<Rightarrow> world \<Rightarrow> world" where
  "fire_timer m h w =
     (case map_of (timers w) h of
        None \<Rightarrow> w
      | Some (CountdownInterval remaining stream d) \<Rightarrow>
          (let w0 = w\<lparr>now := max (now w) d\<rparr>;
               remaining' = remaining - 1;
               w1 = w0\<lparr>timers :=
                      map (\<lambda>(i, t). if i = h then (i, CountdownInterval remaining' stream (d + 1000))
                                    else (i, t)) (timers w0)\<rparr>;
               w2 = w1\<lparr>countdown := remaining'\<rparr>
           in if remaining' \<le> 0
              then beginRecording m stream
                     (case countdownTimerRef w2 of Some c \<Rightarrow> clear_timer c w2 | None \<Rightarrow> w2)
              else w2)
      | Some (StopTimeout d) \<Rightarrow> stop ((clear_timer h w)\<lparr>now := max (now w) d\<rparr>))"

text \<open>The recorder's handlers, and the delivery of its events.\<close>

definition ondataavailable :: "blob option \<Rightarrow> world \<Rightarrow> world" where
  "ondataavailable d w =
     (case d of
        Some b \<Rightarrow> if 0 < blob_size b then w\<lparr>chunksRef := chunksRef w @ [b]\<rparr> else w
      | None \<Rightarrow> w)"

definition onstop :: "nat \<Rightarrow> world \<Rightarrow> world" where
  "onstop r w =
     (let b = new_Blob (chunksRef w) (str_or (rec_mimeType (recorders w ! r)) ''video/webm'');
          (url, w1) = createObjectURL w
      in w1\<lparr>recordedBlob := Some b, blobUrl := Some url, status := Finished,
             secondsLeft := Fin 60\<rparr>)"

definition deliver_data :: "nat \<Rightarrow> blob option \<Rightarrow> world \<Rightarrow> world" where
  "deliver_data r d w =
     (if r < length (recorders w) \<and> (is_recording w r \<or> stop_queued (recorders w ! r))
      then ondataavailable d w else w)"

definition deliver_stop :: "nat \<Rightarrow> world \<Rightarrow> world" where
  "deliver_stop r w =
     (if r < length (recorders w) \<and> stop_queued (recorders w ! r)
      then onstop r (w\<lparr>recorders := (recorders w)[r := (recorders w ! r)\<lparr>stop_queued := False\<rparr>]\<rparr>)
      else w)"

text \<open>
  The platform stops a recorder by itself when its tracks end or it fails: the
  recorder becomes inactive and its \<^verbatim>\<open>stop\<close> event is queued, with no call of the
  component's \<^verbatim>\<open>stop\<close>.
\<close>

definition encoder_halts :: "nat \<Rightarrow> world \<Rightarrow> world" where
  "encoder_halts r w =
     (if is_recording w r
      then w\<lparr>recorders := (recorders w)[r := (recorders w ! r)\<lparr>rec_state := RInactive, stop_queued := True\<rparr>]\<rparr>
      else w)"

text \<open>
  \<^verbatim>\<open>cleanup\<close> reads \<^verbatim>\<open>blobUrl\<close> from the render whose closure it is, given here as
  \<open>seen\<close>; the unmount effect, registered once, holds the first render's.
\<close>

definition cleanup :: "nat option \<Rightarrow> world \<Rightarrow> world" where
  "cleanup seen w =
     (let w1 = stop w;
          w2 = (case streamRef w1 of
                  Some s \<Rightarrow> (stop_tracks s w1)\<lparr>streamRef := None\<rparr>
                | None \<Rightarrow> w1)
      in case seen of Some u \<Rightarrow> revokeObjectURL u w2 | None \<Rightarrow> w2)"

definition unmount :: "world \<Rightarrow> world" where
  "unmount w = cleanup (blobUrl initial) w"

section \<open>Candidate files\<close>

text \<open>
  What the metadata probe of a chosen file answers: \<^verbatim>\<open>onloadedmetadata\<close> with the
  element's \<^verbatim>\<open>duration\<close>, or \<^verbatim>\<open>onerror\<close>.
\<close>

datatype probe = Loaded jsnum | LoadError

text \<open>
  \<^verbatim>\<open>validateDurationApprox60\<close> only probes: it resolves with the duration, or with
  \<open>NaN\<close> on an error, and revokes its temporary URL on both paths.
\<close>

definition validateDurationApprox60 :: "probe \<Rightarrow> world \<Rightarrow> jsnum \<times> world" where
  "validateDurationApprox60 p w =
     (let (url, w1) = createObjectURL w
      in case p of
           Loaded d \<Rightarrow> (d, revokeObjectURL url w1)
         | LoadError \<Rightarrow> (NaN, revokeObjectURL url w1))"

text \<open>The test that \<^verbatim>\<open>handleFilePick\<close> makes on the probed duration.\<close>

definition duration_rejected :: "jsnum \<Rightarrow> bool" where
  "duration_rejected dur = (\<not> isFinite dur \<or> js_gt (Math_abs (js_sub dur (Fin 60))) (Fin 3))"

definition rejection_reason :: "(rat \<Rightarrow> string) \<Rightarrow> jsnum \<Rightarrow> string" where
  "rejection_reason num2str dur =
     ''Selected video must be ~60s. Detected '' @
       (if isFinite dur then toFixed2 num2str dur else ''unknown'') @ ''s.''"

definition handleFilePick :: "(rat \<Rightarrow> string) \<Rightarrow> jsfile option \<Rightarrow> probe \<Rightarrow> world \<Rightarrow> world" where
  "handleFilePick num2str picked p w =
     (let w1 = w\<lparr>selectedFile := None, selectedDuration := None, error := []\<rparr>
      in case picked of
           None \<Rightarrow> w1
         | Some f \<Rightarrow>
             (let (dur, w2) = validateDurationApprox60 p w1;
                  w3 = w2\<lparr>selectedDuration := Some dur\<rparr>
              in if duration_rejected dur
                 then w3\<lparr>error := rejection_reason num2str dur\<rparr>
                 else w3\<lparr>selectedFile := Some f\<rparr>))"

section \<open>Upload\<close>

text \<open>
  A value that \<^verbatim>\<open>res.json()\<close> resolves with. An object is the list of its properties;
  a parsed object has one value for a key, which is looked up at its first
  occurrence.
\<close>

datatype jvalue =
    JNull | JBool bool | JNum jsnum | JStr string | JArr "jvalue list"
  | JObj "(string \<times> jvalue) list"

text \<open>
  What \<^verbatim>\<open>fetch\<close> and \<^verbatim>\<open>res.json()\<close> answer: a rejection of \<^verbatim>\<open>fetch\<close>, or a response
  with its status, its status text and a body that parses as JSON or does not.
\<close>

datatype body = Unparseable | Parsed jvalue

datatype outcome = NetworkFault js_error | Response nat string body

definition API_URL :: string where
  "API_URL = ''https://taichi-1.onrender.com/analyze_video/''"

text \<open>\<^verbatim>\<open>res.ok\<close>.\<close>

definition ok :: "nat \<Rightarrow> bool" where
  "ok st = (200 \<le> st \<and> st \<le> 299)"

text \<open>Truthiness of a parsed value, as \<^verbatim>\<open>json && ...\<close> tests it.\<close>

fun truthy :: "jvalue \<Rightarrow> bool" where
  "truthy JNull = False"
| "truthy (JBool b) = b"
| "truthy (JNum n) = (n \<noteq> NaN \<and> n \<noteq> Fin 0)"
| "truthy (JStr s) = (s \<noteq> [])"
| "truthy v = True"

text \<open>
  \<^verbatim>\<open>json.probabilities\<close>: the member of an object (a \<open>JObj\<close> lists each key once, as
  \<^verbatim>\<open>JSON.parse\<close> leaves it), \<^verbatim>\<open>undefined\<close> (\<open>None\<close>) when it is missing and on every
  other truthy value.
\<close>

fun get_probabilities :: "jvalue \<Rightarrow> jvalue option" where
  "get_probabilities (JObj kvs) = map_of kvs ''probabilities''"
| "get_probabilities v = None"

text \<open>
  The conversion to a number that \<^verbatim>\<open>*\<close> applies. The conversion of a string, and of
  an array through its string form, is the runtime's and is the parameter \<open>text2num\<close>.
\<close>

fun ToNumber :: "(jvalue \<Rightarrow> jsnum) \<Rightarrow> jvalue \<Rightarrow> jsnum" where
  "ToNumber text2num (JNum n) = n"
| "ToNumber text2num JNull = Fin 0"
| "ToNumber text2num (JBool b) = Fin (if b then 1 else 0)"
| "ToNumber text2num (JObj kvs) = NaN"
| "ToNumber text2num v = text2num v"

record runtime =
  num2str :: "rat \<Rightarrow> string"
  text2num :: "jvalue \<Rightarrow> jsnum"

text \<open>The multipart body and the single \<^verbatim>\<open>fetch\<close> of \<^verbatim>\<open>send\<close>.\<close>

definition send_request :: "jsfile \<Rightarrow> string \<Rightarrow> request" where
  "send_request f sourceLabel =
     \<lparr>req_url = API_URL, req_file = f,
      req_filename = str_or (file_name f) (str_or sourceLabel ''video'' @ ''.webm''),
      req_source = str_or sourceLabel ''unknown''\<rparr>"

text \<open>\<^verbatim>\<open>send\<close> up to its \<^verbatim>\<open>await fetch(...)\<close>.\<close>

definition send_begin :: "jsfile \<Rightarrow> string \<Rightarrow> world \<Rightarrow> world" where
  "send_begin f sourceLabel w =
     w\<lparr>isSending := True, error := [], requests := requests w @ [send_request f sourceLabel]\<rparr>"

text \<open>
  The rest of the \<^verbatim>\<open>try\<close> block once \<^verbatim>\<open>fetch\<close> has settled: \<open>Inl\<close> is a throw, with
  the world at the throw.
\<close>

definition send_try :: "runtime \<Rightarrow> outcome \<Rightarrow> world \<Rightarrow> js_error \<times> world + world" where
  "send_try rt out w =
     (case out of
        NetworkFault e \<Rightarrow> Inl (e, w)
      | Response st txt b \<Rightarrow>
          (if \<not> ok st
           then Inl (new_Error (''Upload failed: '' @ show_nat st @ '' '' @ txt), w)
           else
             (let json = (case b of Unparseable \<Rightarrow> JObj [] | Parsed j \<Rightarrow> j)
              in if truthy json \<and> get_probabilities json \<noteq> None
                 then Inr (w\<lparr>accuracy :=
                             Some (toFixed2 (num2str rt)
                                     (js_mul (ToNumber (text2num rt) (the (get_probabilities json)))
                                        (Fin 100)))\<rparr>)
                 else Inr w)))"

text \<open>The \<^verbatim>\<open>catch\<close> and the \<^verbatim>\<open>finally\<close>.\<close>

definition send_settle :: "runtime \<Rightarrow> outcome \<Rightarrow> world \<Rightarrow> world" where
  "send_settle rt out w =
     (let w1 = (case send_try rt out w of
                  Inl (e, w') \<Rightarrow> w'\<lparr>error := String_of_error e\<rparr>
                | Inr w' \<Rightarrow> w')
      in w1\<lparr>isSending := False\<rparr>)"

definition send :: "runtime \<Rightarrow> jsfile \<Rightarrow> string \<Rightarrow> outcome \<Rightarrow> world \<Rightarrow> world" where
  "send rt f sourceLabel out w = send_settle rt out (send_begin f sourceLabel w)"

definition sendRecorded :: "runtime \<Rightarrow> outcome \<Rightarrow> world \<Rightarrow> world" where
  "sendRecorded rt out w =
     (case recordedBlob w of
        None \<Rightarrow> w
      | Some b \<Rightarrow>
          send rt
            \<lparr>file_name = ''recorded-'' @ show_nat (now w) @ ''.webm'',
             file_type = str_or (blob_type b) ''video/webm'', file_blob = b\<rparr>
            ''recorded'' out w)"

definition sendSelected :: "runtime \<Rightarrow> outcome \<Rightarrow> world \<Rightarrow> world" where
  "sendSelected rt out w =
     (case selectedFile w of
        None \<Rightarrow> w
      | Some f \<Rightarrow> send rt f ''uploaded'' out w)"

section \<open>Events\<close>

text \<open>
  Everything that can happen to the mounted component: the three buttons of the
  camera panel, the timers, animation frames and the passing of time, the recorder's
  events, a file choice, and the two upload buttons; then the camera button and
  \<^verbatim>\<open>start\<close> once more as a call that may suspend, and the settlement of the promise
  that the suspended call of index \<open>i\<close> waits for, with the rejection if it rejects.
\<close>

datatype event =
    OpenCamera capture
  | Start capture
  | Stop
  | TimerFires nat media
  | AnimationFrame
  | Advance nat
  | DataAvailable nat "blob option"
  | StopEvent nat
  | EncoderHalts nat
  | FilePick "jsfile option" probe
  | SendRecorded outcome
  | SendSelected outcome
  | OpenCameraCalled
  | StartCalled
  | MediaSettles nat "js_error option"
  | PlaySettles nat "js_error option"

fun step :: "runtime \<Rightarrow> event \<Rightarrow> world \<Rightarrow> world" where
  "step rt (OpenCamera c) w = snd (ensureStream c w)"
| "step rt (Start c) w = start c w"
| "step rt Stop w = stop w"
| "step rt (TimerFires h m) w = fire_timer m h w"
| "step rt AnimationFrame w = animation_frame w"
| "step rt (Advance dt) w = w\<lparr>now := now w + dt\<rparr>"
| "step rt (DataAvailable r d) w = deliver_data r d w"
| "step rt (StopEvent r) w = deliver_stop r w"
| "step rt (EncoderHalts r) w = encoder_halts r w"
| "step rt (FilePick picked p) w = handleFilePick (num2str rt) picked p w"
| "step rt (SendRecorded out) w = sendRecorded rt out w"
| "step rt (SendSelected out) w = sendSelected rt out w"
| "step rt OpenCameraCalled w = openCamera_called w"
| "step rt StartCalled w = start_called w"
| "step rt (MediaSettles i r) w = media_settles i r w"
| "step rt (PlaySettles i r) w = play_settles i r w"

definition run :: "runtime \<Rightarrow> event list \<Rightarrow> world \<Rightarrow> world" where
  "run rt es w = fold (step rt) es w"

section \<open>Notions used to state the properties\<close>

text \<open>
  A value formatted to two decimals, in the words of the specification: the sign,
  the integer part of the value rounded to hundredths (half away from zero on the
  magnitude), a point, and exactly two digits.
\<close>

definition two_decimals :: "rat \<Rightarrow> string" where
  "two_decimals x =
     (let n = nat \<lfloor>\<bar>x\<bar> * 100 + 1 / 2\<rfloor>
      in (if x < 0 then ''-'' else '''') @ show_nat (n div 100) @ ''.'' @
         [digit_char (n div 10 mod 10), digit_char (n mod 10)])"

text \<open>The magnitude that rounding gives, and its distance from the exact value.\<close>

definition rounded :: "rat \<Rightarrow> rat" where
  "rounded x = of_int (round_even (\<bar>x\<bar> / ulp x)) * ulp x"


text \<open>A finite value is a double when rounding leaves it as it is.\<close>

definition is_double :: "rat \<Rightarrow> bool" where
  "is_double x = (round_double x = Fin x)"

text \<open>The numbers that a JavaScript value can be.\<close>

fun representable :: "jsnum \<Rightarrow> bool" where
  "representable (Fin x) = is_double x"
| "representable v = True"

text \<open>What the comparison with the tolerance sees of a rounded difference.\<close>

fun exceeds :: "jsnum \<Rightarrow> rat \<Rightarrow> bool" where
  "exceeds NaN c = False"
| "exceeds PosInf c = True"
| "exceeds NegInf c = True"
| "exceeds (Fin r) c = (c < \<bar>r\<bar>)"

text \<open>
  The acceptance window in the words of the specification: the duration is a finite
  number within 3 seconds of the 60-second target.
\<close>

fun within_tolerance :: "jsnum \<Rightarrow> bool" where
  "within_tolerance (Fin x) = (\<bar>x - 60\<bar> \<le> 3)"
| "within_tolerance v = False"

text \<open>The number of encoders that are recording.\<close>

definition live_encoders :: "world \<Rightarrow> nat" where
  "live_encoders w = length (filter (\<lambda>r. rec_state r = RRecording) (recorders w))"

fun is_interval :: "timer \<Rightarrow> bool" where
  "is_interval (CountdownInterval n s d) = True"
| "is_interval (StopTimeout d) = False"

definition countdown_pending :: "world \<Rightarrow> bool" where
  "countdown_pending w = list_ex (\<lambda>(h, t). is_interval t) (timers w)"

text \<open>
  What \<^verbatim>\<open>stop\<close> and \<^verbatim>\<open>cleanup\<close> leave of the recorders, the pending timers, the
  streams and the object URLs: the recorder in \<open>ref\<close> made inactive if it records,
  the timers other than the two handles, the stream in \<open>ref\<close> with its tracks ended,
  the URLs other than the one seen.
\<close>

definition halted :: "nat option \<Rightarrow> recorder list \<Rightarrow> recorder list" where
  "halted ref rs =
     (case ref of
        Some r \<Rightarrow>
          if r < length rs \<and> rec_state (rs ! r) = RRecording
          then rs[r := (rs ! r)\<lparr>rec_state := RInactive, stop_queued := True\<rparr>]
          else rs
      | None \<Rightarrow> rs)"

definition cleared :: "nat option \<Rightarrow> nat option \<Rightarrow> (nat \<times> timer) list \<Rightarrow> (nat \<times> timer) list" where
  "cleared a b ts = filter (\<lambda>(i, t). Some i \<noteq> a \<and> Some i \<noteq> b) ts"

definition released :: "nat option \<Rightarrow> track_state list list \<Rightarrow> track_state list list" where
  "released ref ss =
     (case ref of
        Some s \<Rightarrow> if s < length ss then ss[s := map (\<lambda>t. Ended) (ss ! s)] else ss
      | None \<Rightarrow> ss)"

definition revoked :: "nat option \<Rightarrow> nat list \<Rightarrow> nat list" where
  "revoked seen us = (case seen of Some u \<Rightarrow> filter (\<lambda>v. v \<noteq> u) us | None \<Rightarrow> us)"

text \<open>Every pending timer has a handle that \<^verbatim>\<open>setTimeout\<close> has already given out.\<close>

definition fresh_handles :: "world \<Rightarrow> bool" where
  "fresh_handles w = (\<forall>(h, t) \<in> set (timers w). h < next_timer w)"

text \<open>
  The world \<open>w'\<close> is \<open>k\<close> ticks into the countdown that \<^verbatim>\<open>start\<close> armed in \<open>w\<close>
  with handle \<open>h\<close> for stream \<open>s\<close>: the interval is pending beside the timers of
  \<open>w\<close> with \<open>5 - k\<close> left, that number is shown, no recorder has been added, and
  at least \<open>k\<close> seconds have passed.
\<close>

definition counting :: "world \<Rightarrow> nat \<Rightarrow> nat \<Rightarrow> nat \<Rightarrow> world \<Rightarrow> bool" where
  "counting w h s k w' =
     (timers w' = timers w @ [(h, CountdownInterval (5 - int k) s (now w + 1000 * Suc k))] \<and>
      countdown w' = 5 - int k \<and> recorders w' = recorders w \<and>
      countdownTimerRef w' = Some h \<and> next_timer w' = Suc h \<and> status w' = Countdown \<and>
      now w + 1000 * k \<le> now w')"

text \<open>A browser in which neither the constructor nor \<^verbatim>\<open>start()\<close> throws.\<close>

definition works :: "media \<Rightarrow> bool" where
  "works m = (has_MediaRecorder m \<and> constructor_throws m = None \<and> start_throws m = None)"

text \<open>The handles of the pending countdown intervals.\<close>

definition interval_handles :: "world \<Rightarrow> nat set" where
  "interval_handles w = set (map fst (filter (\<lambda>(h, t). is_interval t) (timers w)))"





text \<open>The \<^verbatim>\<open>state\<close> of every recorder, in order.\<close>

definition states :: "world \<Rightarrow> rec_state list" where
  "states w = map rec_state (recorders w)"

text \<open>Operations that leave the recorders' states, the timers and the countdown handle alone.\<close>

definition quiet :: "world \<Rightarrow> world \<Rightarrow> bool" where
  "quiet w w' = (states w' = states w \<and> timers w' = timers w \<and> countdownTimerRef w' = countdownTimerRef w)"

text \<open>Operations that add no recording encoder and no countdown interval.\<close>

definition shrinks :: "world \<Rightarrow> world \<Rightarrow> bool" where
  "shrinks w w' =
     (live_encoders w' \<le> live_encoders w \<and> interval_handles w' \<subseteq> interval_handles w \<and>
      countdownTimerRef w' = countdownTimerRef w)"

text \<open>
  A browser whose \<^verbatim>\<open>MediaRecorder\<close> supports every listed type and throws nothing, a
  runtime, and a chosen file, for the concrete runs below.
\<close>

definition browser :: media where
  "browser =
     \<lparr>has_MediaRecorder = True, isTypeSupported = (\<lambda>ty. True), constructor_throws = None,
      start_throws = None, default_mimeType = ''video/webm''\<rparr>"

definition plain_runtime :: runtime where
  "plain_runtime = \<lparr>num2str = (\<lambda>x. ''1e+21''), text2num = (\<lambda>v. NaN)\<rparr>"

definition clip :: jsfile where
  "clip =
     \<lparr>file_name = ''clip.webm'', file_type = ''video/webm'',
      file_blob = \<lparr>blob_parts = [0], blob_size = 1, blob_type = ''video/webm''\<rparr>\<rparr>"

text \<open>
  The events of the presentation clock, and what they leave alone: the recorders,
  the timers, the refs, the status and the chunks, while time does not go back.
\<close>

fun is_presentation :: "event \<Rightarrow> bool" where
  "is_presentation AnimationFrame = True"
| "is_presentation (Advance dt) = True"
| "is_presentation e = False"

definition same_session :: "world \<Rightarrow> world \<Rightarrow> bool" where
  "same_session w w' =
     (recorders w' = recorders w \<and> timers w' = timers w \<and> recorderRef w' = recorderRef w \<and>
      stopTimerRef w' = stopTimerRef w \<and> countdownTimerRef w' = countdownTimerRef w \<and>
      status w' = status w \<and> chunksRef w' = chunksRef w \<and> now w \<le> now w')"

text \<open>
  Concrete runs: two presses of the camera button before \<^verbatim>\<open>getUserMedia\<close> has
  answered the first; the five firings of the countdown interval of handle \<open>h\<close>; a
  session that is stopped by the user and followed by a second one; and two calls of
  \<^verbatim>\<open>start\<close> in a row, with both intervals fired in the order in which they are due,
  up to the sixth second.
\<close>

definition overlapping_camera_calls :: "event list" where
  "overlapping_camera_calls =
     [OpenCameraCalled, OpenCameraCalled, MediaSettles 0 None, MediaSettles 0 None,
      PlaySettles 0 None, PlaySettles 0 None]"

definition countdown_ticks :: "nat \<Rightarrow> event list" where
  "countdown_ticks h =
     [TimerFires h browser, TimerFires h browser, TimerFires h browser,
      TimerFires h browser, TimerFires h browser]"


definition overlapping_starts :: "event list" where
  "overlapping_starts =
     [Start Granted, Start Granted,
      TimerFires 1 browser, TimerFires 2 browser, TimerFires 1 browser, TimerFires 2 browser,
      TimerFires 1 browser, TimerFires 2 browser, TimerFires 1 browser, TimerFires 2 browser,
      TimerFires 1 browser, TimerFires 1 browser]"

text \<open>
  The platform's clock. An event is on time when a timer that fires is pending, is
  due no earlier than now and no later than any other pending timer, and when time
  that passes does not pass the due time of a pending timer; every other event
  takes no time. A run is timely when each of its events is on time.
\<close>

fun on_time :: "event \<Rightarrow> world \<Rightarrow> bool" where
  "on_time (TimerFires h m) w =
     (case map_of (timers w) h of
        None \<Rightarrow> False
      | Some t \<Rightarrow> now w \<le> due_at t \<and> list_all (\<lambda>(i, t'). due_at t \<le> due_at t') (timers w))"
| "on_time (Advance dt) w = list_all (\<lambda>(i, t). now w + dt \<le> due_at t) (timers w)"
| "on_time e w = True"

fun timely :: "runtime \<Rightarrow> event list \<Rightarrow> world \<Rightarrow> bool" where
  "timely rt [] w = True"
| "timely rt (e # es) w = (on_time e w \<and> timely rt es (step rt e w))"

text \<open>
  Timely runs: a capture that begins after its countdown and whose encoder the
  platform then halts; after it, a new \<^verbatim>\<open>start\<close> 2.5 seconds before the old deadline
  is due, and the waiting that follows; after it, a new \<^verbatim>\<open>start\<close> at once and its
  countdown; and the two calls of \<^verbatim>\<open>start\<close> in a row up to the seventh second.
\<close>

definition halted_capture :: "event list" where
  "halted_capture =
     [OpenCamera Granted, Start Granted] @ countdown_ticks 1 @ [EncoderHalts 0, StopEvent 0]"

definition stale_wait :: "event list" where
  "stale_wait =
     halted_capture @
     [Advance 57500, Start Granted, TimerFires 3 browser, TimerFires 3 browser, TimerFires 2 browser]"

definition second_capture :: "event list" where
  "second_capture = halted_capture @ [Advance 5000, Start Granted] @ countdown_ticks 3"

definition double_start :: "event list" where
  "double_start = overlapping_starts @ [TimerFires 1 browser]"

section \<open>Rounding\<close>

lemma log2_up_bounds: "1 \<le> x \<Longrightarrow> 2 ^ log2_up x \<le> x \<and> x < 2 * 2 ^ log2_up x"
proof (induction x rule: log2_up.induct)
  case (1 x)
  show ?case
  proof (cases "x < 2")
    case True
    then show ?thesis
      using "1.prems" by (simp add: log2_up.simps [of x])
  next
    case False
    then have "1 \<le> x / 2"
      by simp
    then have "2 ^ log2_up (x / 2) \<le> x / 2 \<and> x / 2 < 2 * 2 ^ log2_up (x / 2)"
      using "1.IH" False by simp
    then show ?thesis
      using False by (simp add: log2_up.simps [of x])
  qed
qed



lemma ulp_pos: "0 < ulp x"
proof -
  have "(0::rat) < 1 / 2 ^ 1022"
    by simp
  then have "0 < max (binade \<bar>x\<bar>) (1 / 2 ^ 1022)"
    by (simp only: less_max_iff_disj) simp
  then show ?thesis
    unfolding ulp_def by (rule divide_pos_pos) simp
qed

lemma round_even_near: "\<bar>of_int (round_even y) - y\<bar> \<le> 1 / 2"
  unfolding round_even_def Let_def by (auto simp: abs_if) linarith+

lemma round_even_int: "round_even (of_int n) = n"
  by (simp add: round_even_def)

lemma round_even_ge: "of_int n \<le> y \<Longrightarrow> n \<le> round_even y"
  unfolding round_even_def Let_def by (auto simp: le_floor_iff) linarith+


lemma log2_up_unique:
  assumes "2 ^ k \<le> x" and "x < 2 * 2 ^ k"
  shows "log2_up x = k"
proof -
  have one: "1 \<le> x"
    using assms(1) one_le_power [of "2::rat" k] by linarith
  note b = log2_up_bounds [OF one]
  have "(2::rat) ^ log2_up x < 2 ^ Suc k"
    using b assms(2) by simp
  then have "log2_up x < Suc k"
    by (simp only: power_strict_increasing_iff [of "2::rat"] one_less_numeral_iff semiring_norm)
  moreover have "(2::rat) ^ k < 2 ^ Suc (log2_up x)"
    using b assms(1) by simp
  then have "k < Suc (log2_up x)"
    by (simp only: power_strict_increasing_iff [of "2::rat"] one_less_numeral_iff semiring_norm)
  ultimately show ?thesis
    by simp
qed

lemma log2_up_ge:
  assumes "2 ^ k \<le> x"
  shows "k \<le> log2_up x"
proof -
  have one: "1 \<le> x"
    using assms one_le_power [of "2::rat" k] by linarith
  have "(2::rat) ^ k < 2 ^ Suc (log2_up x)"
    using log2_up_bounds [OF one] assms by simp
  then have "k < Suc (log2_up x)"
    by (simp only: power_strict_increasing_iff [of "2::rat"] one_less_numeral_iff semiring_norm)
  then show ?thesis
    by simp
qed

lemma log2_up_less:
  assumes "1 \<le> x" and "x < 2 ^ k"
  shows "log2_up x < k"
proof -
  have "(2::rat) ^ log2_up x < 2 ^ k"
    using log2_up_bounds [OF assms(1)] assms(2) by linarith
  then show ?thesis
    by (simp only: power_strict_increasing_iff [of "2::rat"] one_less_numeral_iff semiring_norm)
qed

lemma round_double_eq:
  "round_double x =
     (if x = 0 then Fin 0
      else if 2 ^ 1024 \<le> rounded x then (if x < 0 then NegInf else PosInf)
      else Fin (if x < 0 then - rounded x else rounded x))"
  by (simp add: round_double_def rounded_def Let_def)

lemma rounded_near: "\<bar>rounded x - \<bar>x\<bar>\<bar> \<le> ulp x / 2"
proof -
  have "\<bar>of_int (round_even (\<bar>x\<bar> / ulp x)) - \<bar>x\<bar> / ulp x\<bar> * ulp x \<le> 1 / 2 * ulp x"
    using round_even_near [of "\<bar>x\<bar> / ulp x"] ulp_pos [of x]
    by (intro mult_right_mono) simp_all
  moreover have "\<bar>of_int (round_even (\<bar>x\<bar> / ulp x)) - \<bar>x\<bar> / ulp x\<bar> * ulp x = \<bar>rounded x - \<bar>x\<bar>\<bar>"
  proof -
    have "\<bar>of_int (round_even (\<bar>x\<bar> / ulp x)) - \<bar>x\<bar> / ulp x\<bar> * \<bar>ulp x\<bar> =
          \<bar>(of_int (round_even (\<bar>x\<bar> / ulp x)) - \<bar>x\<bar> / ulp x) * ulp x\<bar>"
      by (simp only: abs_mult)
    also have "(of_int (round_even (\<bar>x\<bar> / ulp x)) - \<bar>x\<bar> / ulp x) * ulp x = rounded x - \<bar>x\<bar>"
      using ulp_pos [of x] by (simp add: rounded_def algebra_simps)
    finally show ?thesis
      using ulp_pos [of x] by simp
  qed
  ultimately show ?thesis
    by simp
qed


lemma rounded_exact:
  assumes "\<bar>x\<bar> / ulp x = of_int n"
  shows "rounded x = \<bar>x\<bar>"
proof -
  have "rounded x = of_int n * ulp x"
    by (simp add: rounded_def assms round_even_int)
  also have "\<dots> = \<bar>x\<bar> / ulp x * ulp x"
    by (simp only: assms)
  also have "\<dots> = \<bar>x\<bar>"
    using ulp_pos [of x] by simp
  finally show ?thesis .
qed


lemma rounded_ge:
  assumes "2 ^ k \<le> \<bar>x\<bar>"
  shows "2 ^ k \<le> rounded x"
proof -
  have one: "1 \<le> \<bar>x\<bar>"
    using assms one_le_power [of "2::rat" k] by linarith
  have bin: "binade \<bar>x\<bar> = 2 ^ log2_up \<bar>x\<bar>"
    using one by (simp add: binade_def)
  have big: "(1::rat) / 2 ^ 1022 \<le> 2 ^ log2_up \<bar>x\<bar>"
  proof -
    have "(1::rat) / 2 ^ 1022 \<le> 1"
      by simp
    also have "(1::rat) \<le> 2 ^ log2_up \<bar>x\<bar>"
      by (rule one_le_power) simp
    finally show ?thesis .
  qed
  have u: "ulp x = 2 ^ log2_up \<bar>x\<bar> / 2 ^ 52"
    using big by (simp add: ulp_def bin max_def)
  have "2 ^ log2_up \<bar>x\<bar> \<le> \<bar>x\<bar>"
    using log2_up_bounds [OF one] by simp
  then have "2 ^ log2_up \<bar>x\<bar> / ulp x \<le> \<bar>x\<bar> / ulp x"
    using ulp_pos [of x] by (simp add: divide_right_mono)
  moreover have "2 ^ log2_up \<bar>x\<bar> / ulp x = of_int (2 ^ 52)"
    by (simp add: u)
  ultimately have "2 ^ 52 \<le> round_even (\<bar>x\<bar> / ulp x)"
    using round_even_ge [of "2 ^ 52" "\<bar>x\<bar> / ulp x"] by simp
  then have "(of_int (2 ^ 52) :: rat) \<le> of_int (round_even (\<bar>x\<bar> / ulp x))"
    by (simp only: of_int_le_iff)
  then have "of_int (2 ^ 52) * ulp x \<le> rounded x"
    unfolding rounded_def using ulp_pos [of x] by (intro mult_right_mono) simp_all
  moreover have "of_int (2 ^ 52) * ulp x = 2 ^ log2_up \<bar>x\<bar>"
    by (simp add: u)
  moreover have "(2::rat) ^ k \<le> 2 ^ log2_up \<bar>x\<bar>"
    using log2_up_ge [OF assms] by (intro power_increasing) simp_all
  ultimately show ?thesis
    by linarith
qed


lemma ulp_binade_5:
  assumes "32 \<le> \<bar>d\<bar>" and "\<bar>d\<bar> < 64"
  shows "ulp d = 1 / 2 ^ 47"
proof -
  have "log2_up \<bar>d\<bar> = 5"
    using assms by (intro log2_up_unique) simp_all
  then have "binade \<bar>d\<bar> = 32"
    using assms by (simp add: binade_def)
  then show ?thesis
    by (simp add: ulp_def)
qed

lemma double_grid:
  assumes "is_double d" and "32 \<le> d" and "d < 64"
  shows "\<exists>m::int. d = of_int m / 2 ^ 47"
proof -
  have u: "ulp d = 1 / 2 ^ 47"
    using assms(2,3) by (intro ulp_binade_5) simp_all
  have "round_double d = Fin d"
    using assms(1) by (simp add: is_double_def)
  then have "rounded d = d"
    using assms(2) by (simp add: round_double_eq split: if_splits)
  then have "d = of_int (round_even (\<bar>d\<bar> / ulp d)) / 2 ^ 47"
    by (simp add: rounded_def u)
  then show ?thesis ..
qed

lemma grid_double:
  assumes "d = of_int m / 2 ^ 47" and "32 \<le> d" and "d < 64"
  shows "is_double d"
proof -
  have u: "ulp d = 1 / 2 ^ 47"
    using assms(2,3) by (intro ulp_binade_5) simp_all
  have "\<bar>d\<bar> / ulp d = of_int m"
    using assms by (simp add: u)
  then have "rounded d = \<bar>d\<bar>"
    by (rule rounded_exact)
  then show ?thesis
    using assms(2,3) by (simp add: is_double_def round_double_eq)
qed

lemma ulp_divides:
  assumes "y \<noteq> 0" and "\<bar>y\<bar> < 32"
  shows "\<exists>i::nat. 1 / 2 ^ 47 = 2 ^ i * ulp y"
proof (cases "1 \<le> \<bar>y\<bar>")
  case True
  have "\<bar>y\<bar> < 2 ^ 5"
    using assms(2) by simp
  then have less: "log2_up \<bar>y\<bar> < 5"
    using True by (intro log2_up_less)
  have big: "(1::rat) / 2 ^ 1022 \<le> 2 ^ log2_up \<bar>y\<bar>"
  proof -
    have "(1::rat) / 2 ^ 1022 \<le> 1"
      by simp
    also have "(1::rat) \<le> 2 ^ log2_up \<bar>y\<bar>"
      by (rule one_le_power) simp
    finally show ?thesis .
  qed
  have u: "ulp y = 2 ^ log2_up \<bar>y\<bar> / 2 ^ 52"
    using True big by (simp add: ulp_def binade_def max_def)
  have "(2::rat) ^ (5 - log2_up \<bar>y\<bar>) * 2 ^ log2_up \<bar>y\<bar> = 2 ^ 5"
    using less by (simp add: power_add [symmetric])
  then have "(2::rat) ^ (5 - log2_up \<bar>y\<bar>) * ulp y = 2 ^ 5 / 2 ^ 52"
    by (simp add: u)
  then have "1 / 2 ^ 47 = (2::rat) ^ (5 - log2_up \<bar>y\<bar>) * ulp y"
    by simp
  then show ?thesis ..
next
  case False
  define n where "n = min (log2_down \<bar>y\<bar>) 1022"
  have "max (1 / 2 ^ log2_down \<bar>y\<bar>) (1 / 2 ^ 1022) = (1::rat) / 2 ^ n"
  proof (cases "log2_down \<bar>y\<bar> \<le> 1022")
    case True
    then have "(2::rat) ^ log2_down \<bar>y\<bar> \<le> 2 ^ 1022"
      by (intro power_increasing) simp_all
    then have "(1::rat) / 2 ^ 1022 \<le> 1 / 2 ^ log2_down \<bar>y\<bar>"
      by (simp add: frac_le)
    then show ?thesis
      using True by (simp add: n_def max_def min_def)
  next
    case False
    then have "(2::rat) ^ 1022 \<le> 2 ^ log2_down \<bar>y\<bar>"
      by (intro power_increasing) simp_all
    then have "(1::rat) / 2 ^ log2_down \<bar>y\<bar> \<le> 1 / 2 ^ 1022"
      by (simp add: frac_le)
    then show ?thesis
      using False by (simp add: n_def max_def min_def)
  qed
  then have u: "ulp y = 1 / 2 ^ n / 2 ^ 52"
    using False by (simp add: ulp_def binade_def)
  have "(2::rat) ^ (n + 5) * ulp y = 2 ^ 5 / 2 ^ 52"
    by (simp add: u power_add)
  then have "1 / 2 ^ 47 = (2::rat) ^ (n + 5) * ulp y"
    by simp
  then show ?thesis ..
qed

lemma sub60_exact:
  assumes "is_double d" and "32 \<le> d" and "d < 64"
  shows "round_double (d - 60) = Fin (d - 60)"
proof (cases "d - 60 = 0")
  case True
  then show ?thesis
    by (simp add: round_double_def)
next
  case False
  obtain m :: int where m: "d = of_int m / 2 ^ 47"
    using double_grid [OF assms] by blast
  have small: "\<bar>d - 60\<bar> < 32"
    using assms(2,3) by (simp add: abs_if)
  obtain i :: nat where i: "1 / 2 ^ 47 = 2 ^ i * ulp (d - 60)"
    using ulp_divides [OF False small] by blast
  have "d - 60 = of_int (m - 60 * 2 ^ 47) * (1 / 2 ^ 47)"
    by (simp add: m field_simps)
  then have "\<bar>d - 60\<bar> = of_int \<bar>m - 60 * 2 ^ 47\<bar> * (1 / 2 ^ 47)"
    by (simp only: abs_mult of_int_abs) simp
  also have "\<dots> = of_int \<bar>m - 60 * 2 ^ 47\<bar> * (2 ^ i * ulp (d - 60))"
    by (simp only: i)
  also have "\<dots> = of_int (\<bar>m - 60 * 2 ^ 47\<bar> * 2 ^ i) * ulp (d - 60)"
    by simp
  finally have "\<bar>d - 60\<bar> / ulp (d - 60) = of_int (\<bar>m - 60 * 2 ^ 47\<bar> * 2 ^ i)"
    using ulp_pos [of "d - 60"] by simp
  then have "rounded (d - 60) = \<bar>d - 60\<bar>"
    by (rule rounded_exact)
  moreover have "(32::rat) < 2 ^ 1024"
    by simp
  then have "\<bar>d - 60\<bar> < 2 ^ 1024"
    using small by linarith
  ultimately show ?thesis
    using False by (simp add: round_double_eq abs_if)
qed

lemma exceeds_far:
  assumes "2 ^ k \<le> \<bar>y\<bar>" and "c < 2 ^ k"
  shows "exceeds (round_double y) c"
proof -
  have "(0::rat) < 2 ^ k"
    by simp
  then have "0 < \<bar>y\<bar>"
    using assms(1) by linarith
  then have "y \<noteq> 0"
    by auto
  moreover have "c < rounded y"
    using rounded_ge [OF assms(1)] assms(2) by linarith
  ultimately show ?thesis
    by (simp add: round_double_eq abs_if)
qed

lemma sub60_decision:
  assumes "is_double d"
  shows "exceeds (round_double (d - 60)) 3 = (3 < \<bar>d - 60\<bar>)"
proof -
  consider "d < 32" | "32 \<le> d" "d < 64" | "64 \<le> d"
    by linarith
  then show ?thesis
  proof cases
    case 1
    then have "2 ^ 4 \<le> \<bar>d - 60\<bar>"
      by (simp add: abs_if)
    then have "exceeds (round_double (d - 60)) 3"
      by (rule exceeds_far) simp
    then show ?thesis
      using 1 by (simp add: abs_if)
  next
    case 2
    then show ?thesis
      by (simp add: sub60_exact [OF assms])
  next
    case 3
    then have "2 ^ 2 \<le> \<bar>d - 60\<bar>"
      by (simp add: abs_if)
    then have "exceeds (round_double (d - 60)) 3"
      by (rule exceeds_far) simp
    then show ?thesis
      using 3 by (simp add: abs_if)
  qed
qed


text \<open>Rounding inside one binade, and the doubles that the statements below name.\<close>

lemma round_even_unique:
  assumes "\<bar>of_int n - y\<bar> < 1 / 2"
  shows "round_even y = n"
proof -
  have "\<bar>of_int (round_even y) - y\<bar> \<le> 1 / 2"
    by (rule round_even_near)
  then have "\<bar>(of_int (round_even y) :: rat) - of_int n\<bar> < 1"
    using assms by linarith
  then have "\<bar>(of_int (round_even y - n) :: rat)\<bar> < 1"
    by simp
  then have "\<bar>round_even y - n\<bar> < 1"
    by (simp only: of_int_abs [symmetric] of_int_less_1_iff)
  then show ?thesis
    by simp
qed

lemma ulp_binade:
  assumes "2 ^ k \<le> \<bar>d\<bar>" and "\<bar>d\<bar> < 2 * 2 ^ k"
  shows "ulp d = 2 ^ k / 2 ^ 52"
proof -
  have one: "(1::rat) \<le> 2 ^ k"
    by (rule one_le_power) simp
  have "log2_up \<bar>d\<bar> = k"
    using assms by (rule log2_up_unique)
  moreover have "1 \<le> \<bar>d\<bar>"
    using one assms(1) by linarith
  ultimately have b: "binade \<bar>d\<bar> = 2 ^ k"
    by (simp add: binade_def)
  have "(1::rat) / 2 ^ 1022 \<le> 1"
    by simp
  then have "(1::rat) / 2 ^ 1022 \<le> 2 ^ k"
    using one by linarith
  then show ?thesis
    unfolding ulp_def b by (simp only: max_absorb1)
qed

lemma round_in_binade:
  assumes "2 ^ k \<le> x" and "x < 2 * 2 ^ k" and "k \<le> 1022"
    and "\<bar>of_int m - x * 2 ^ 52 / 2 ^ k\<bar> < 1 / 2"
  shows "round_double x = Fin (of_int m * 2 ^ k / 2 ^ 52)"
proof -
  have pos: "0 < x"
    using assms(1) zero_less_power [of "2::rat" k] by linarith
  have u: "ulp x = 2 ^ k / 2 ^ 52"
    using assms(1,2) pos by (intro ulp_binade) simp_all
  have "\<bar>x\<bar> / ulp x = x * 2 ^ 52 / 2 ^ k"
    using pos by (simp add: u)
  then have "round_even (\<bar>x\<bar> / ulp x) = m"
    using assms(4) by (intro round_even_unique) simp
  then have r: "rounded x = of_int m * 2 ^ k / 2 ^ 52"
    by (simp add: rounded_def u)
  have "rounded x \<le> \<bar>x\<bar> + ulp x / 2"
    using rounded_near [of x] by linarith
  moreover have "ulp x / 2 \<le> 2 ^ k"
    by (simp add: u field_simps)
  moreover have "(2::rat) ^ k \<le> 2 ^ 1022"
    using assms(3) by (intro power_increasing) simp_all
  moreover have "(4::rat) * 2 ^ 1022 = 2 ^ 1024"
    by simp
  ultimately have "rounded x < 2 ^ 1024"
    using assms(2) pos by linarith
  then have "round_double x = Fin (rounded x)"
    using pos by (simp add: round_double_eq)
  then show ?thesis
    by (simp only: r)
qed

lemma dyadic_double:
  assumes "2 ^ k \<le> x" and "x < 2 * 2 ^ k" and "k \<le> 1022" and "x * 2 ^ 52 / 2 ^ k = of_int m"
  shows "is_double x"
proof -
  have "\<bar>of_int m - x * 2 ^ 52 / 2 ^ k\<bar> < 1 / 2"
    unfolding assms(4) by simp
  with assms(1,2,3) have "round_double x = Fin (of_int m * 2 ^ k / 2 ^ 52)"
    by (rule round_in_binade)
  moreover have "of_int m * 2 ^ k / 2 ^ 52 = x"
    unfolding assms(4) [symmetric] by simp
  ultimately show ?thesis
    by (simp add: is_double_def)
qed

lemma is_double_57: "is_double 57"
  by (rule dyadic_double [of 5 _ "57 * 2 ^ 47"]) simp_all

lemma is_double_58: "is_double 58"
  by (rule dyadic_double [of 5 _ "58 * 2 ^ 47"]) simp_all

lemma is_double_63: "is_double 63"
  by (rule dyadic_double [of 5 _ "63 * 2 ^ 47"]) simp_all

lemma is_double_70: "is_double 70"
  by (rule dyadic_double [of 6 _ "70 * 2 ^ 46"]) simp_all

lemma round_56_9: "round_double (569 / 10) = Fin (8007963087418163 / 2 ^ 47)"
  using round_in_binade [of 5 "569 / 10" 8007963087418163] by simp

lemma round_63_01: "round_double (6301 / 100) = Fin (8867869141269217 / 2 ^ 47)"
  using round_in_binade [of 5 "6301 / 100" 8867869141269217] by simp








section \<open>Printing numbers\<close>

lemma digit_chars:
  "digit_char 0 = CHR ''0''" "digit_char 1 = CHR ''1''" "digit_char 2 = CHR ''2''"
  "digit_char 3 = CHR ''3''" "digit_char 4 = CHR ''4''" "digit_char 5 = CHR ''5''"
  "digit_char 6 = CHR ''6''" "digit_char 7 = CHR ''7''" "digit_char 8 = CHR ''8''"
  "digit_char 9 = CHR ''9''"
  by code_simp+

lemma digit_char_0: "digit_char 0 = CHR ''0''"
  by (rule digit_chars)

lemma digit_char_Suc_0: "digit_char (Suc 0) = CHR ''1''"
  using digit_chars(2) by simp

lemma show_nat_nonempty: "show_nat n \<noteq> []"
  by (subst show_nat.simps) simp

lemma show_nat_small: "n < 10 \<Longrightarrow> show_nat n = [digit_char n]"
  by (subst show_nat.simps) simp

lemma show_nat_step: "10 \<le> n \<Longrightarrow> show_nat n = show_nat (n div 10) @ [digit_char (n mod 10)]"
  by (subst show_nat.simps) simp

lemma show_nat_two:
  "10 \<le> n \<Longrightarrow> n < 100 \<Longrightarrow> show_nat n = [digit_char (n div 10), digit_char (n mod 10)]"
  by (simp add: show_nat_step show_nat_small)

lemma show_nat_hundreds:
  assumes "100 \<le> n"
  shows "show_nat n = show_nat (n div 100) @ [digit_char (n div 10 mod 10), digit_char (n mod 10)]"
proof -
  have units: "show_nat n = show_nat (n div 10) @ [digit_char (n mod 10)]"
    using assms by (simp add: show_nat_step)
  have "10 \<le> n div 10"
    using assms by simp
  then have tens: "show_nat (n div 10) = show_nat (n div 10 div 10) @ [digit_char (n div 10 mod 10)]"
    by (rule show_nat_step)
  have "n div 10 div 10 = n div 100"
    by (simp add: div_mult2_eq)
  with units tens show ?thesis by simp
qed

text \<open>The padding and the placement of the point in \<open>toFixed2\<close>, whatever the integer.\<close>

lemma fixed_layout:
  "(let m = show_nat n;
        m' = (if length m \<le> 2 then replicate (3 - length m) (CHR ''0'') @ m else m);
        k = length m'
    in take (k - 2) m' @ ''.'' @ drop (k - 2) m')
   = show_nat (n div 100) @ ''.'' @ [digit_char (n div 10 mod 10), digit_char (n mod 10)]"
proof -
  have pad: "replicate 2 (CHR ''0'') = ''00''"
    by (simp add: numeral_2_eq_2)
  consider "n < 10" | "10 \<le> n" "n < 100" | "100 \<le> n"
    by linarith
  then show ?thesis
  proof cases
    case 1
    then have "show_nat n = [digit_char n]" "n div 100 = 0" "n div 10 mod 10 = 0" "n mod 10 = n"
      by (simp_all add: show_nat_small)
    then show ?thesis
      by (simp add: show_nat_small Let_def digit_char_0 pad)
  next
    case 2
    then have "show_nat n = [digit_char (n div 10), digit_char (n mod 10)]"
      "n div 100 = 0" "n div 10 mod 10 = n div 10"
      by (simp_all add: show_nat_two)
    then show ?thesis
      by (simp add: show_nat_small Let_def digit_char_0)
  next
    case 3
    then show ?thesis
      by (simp add: show_nat_hundreds Let_def show_nat_nonempty)
  qed
qed

lemma toFixed2_two_decimals:
  assumes "\<bar>x\<bar> < 10 ^ 21"
  shows "toFixed2 n2s (Fin x) = two_decimals x"
  using assms fixed_layout [of "nat \<lfloor>\<bar>x\<bar> * 100 + 1 / 2\<rfloor>"]
  by (simp add: toFixed2_def two_decimals_def Let_def)

text \<open>A value that is a whole number of hundredths prints its own digits.\<close>

lemma round_hundredths: "nat \<lfloor>(of_nat n :: rat) + 1 / 2\<rfloor> = n"
proof -
  have "\<lfloor>(of_nat n :: rat) + 1 / 2\<rfloor> = int n"
    by (simp add: floor_eq_iff)
  then show ?thesis by simp
qed

lemma two_decimals_hundredths:
  assumes "0 \<le> x" and "x * 100 = of_nat n"
  shows "two_decimals x =
     show_nat (n div 100) @ ''.'' @ [digit_char (n div 10 mod 10), digit_char (n mod 10)]"
proof -
  have "nat \<lfloor>\<bar>x\<bar> * 100 + 1 / 2\<rfloor> = n"
    using assms round_hundredths [of n] by simp
  then show ?thesis
    using assms by (simp add: two_decimals_def Let_def)
qed

lemmas show_digits = show_nat_hundreds show_nat_two show_nat_small digit_chars digit_char_Suc_0

text \<open>A value between two ties prints the hundredths between them.\<close>

lemma two_decimals_near:
  assumes "0 \<le> x" and "of_nat n \<le> x * 100 + 1 / 2" and "x * 100 + 1 / 2 < of_nat n + 1"
  shows "two_decimals x =
     show_nat (n div 100) @ ''.'' @ [digit_char (n div 10 mod 10), digit_char (n mod 10)]"
proof -
  have "\<lfloor>x * 100 + 1 / 2\<rfloor> = int n"
    using assms(2,3) by (simp add: floor_eq_iff)
  then have "nat \<lfloor>\<bar>x\<bar> * 100 + 1 / 2\<rfloor> = n"
    using assms(1) by simp
  then show ?thesis
    using assms(1) by (simp add: two_decimals_def Let_def)
qed


section \<open>The duration check on chosen files\<close>

lemma abs_gt_exceeds: "js_gt (Math_abs v) (Fin c) = exceeds v c"
  by (cases v) simp_all

lemma duration_rejected_iff:
  assumes "representable d"
  shows "duration_rejected d = (\<not> within_tolerance d)"
proof (cases d)
  case (Fin x)
  then have "is_double x"
    using assms by simp
  then have "exceeds (round_double (x - 60)) 3 = (3 < \<bar>x - 60\<bar>)"
    by (rule sub60_decision)
  then show ?thesis
    using Fin by (simp add: duration_rejected_def js_sub_def abs_gt_exceeds not_le)
qed (simp_all add: duration_rejected_def)

lemma probe_result:
  "fst (validateDurationApprox60 p w) = (case p of Loaded d \<Rightarrow> d | LoadError \<Rightarrow> NaN)"
  by (simp add: validateDurationApprox60_def createObjectURL_def split: probe.split)

lemma selectedFile_handleFilePick:
  "selectedFile (handleFilePick n2s (Some f) p w) =
     (if duration_rejected (fst (validateDurationApprox60 p w)) then None else Some f)"
  by (simp add: handleFilePick_def validateDurationApprox60_def createObjectURL_def
      revokeObjectURL_def Let_def split: probe.split)

lemma error_handleFilePick:
  "error (handleFilePick n2s (Some f) p w) =
     (if duration_rejected (fst (validateDurationApprox60 p w))
      then rejection_reason n2s (fst (validateDurationApprox60 p w)) else [])"
  by (simp add: handleFilePick_def validateDurationApprox60_def createObjectURL_def
      revokeObjectURL_def Let_def split: probe.split)

lemma reason_cases:
  "rejection_reason n2s d =
     ''Selected video must be ~60s. Detected '' @
       (case d of Fin x \<Rightarrow> toFixed2 n2s (Fin x) | _ \<Rightarrow> ''unknown'') @ ''s.''"
  by (cases d) (simp_all add: rejection_reason_def)

lemma two_decimals_70: "two_decimals 70 = ''70.00''"
  using two_decimals_hundredths [of 70 7000] by (simp add: show_digits)

lemma is_double_56_9: "is_double (8007963087418163 / 2 ^ 47)"
  by (rule grid_double [of _ 8007963087418163]) simp_all

lemma is_double_63_01: "is_double (8867869141269217 / 2 ^ 47)"
  by (rule grid_double [of _ 8867869141269217]) simp_all

lemma two_decimals_56_9: "two_decimals (8007963087418163 / 2 ^ 47) = ''56.90''"
proof -
  have "two_decimals (8007963087418163 / 2 ^ 47) =
     show_nat (5690 div 100) @ ''.'' @ [digit_char (5690 div 10 mod 10), digit_char (5690 mod 10)]"
    by (rule two_decimals_near) simp_all
  then show ?thesis
    by (simp add: show_digits)
qed

lemma selected_iff:
  assumes "representable d"
  shows "selectedFile (handleFilePick n2s (Some f) (Loaded d) w) =
           (if within_tolerance d then Some f else None)"
  using assms by (simp add: selectedFile_handleFilePick probe_result duration_rejected_iff)

text \<open>
  Claim C1, as the code has it. A chosen file is accepted exactly when its probed
  duration is a finite number within 3 seconds of 60; an accepted file leaves no
  error. A rejected file is not selected and the reason embeds the duration as
  \<^verbatim>\<open>toFixed(2)\<close> prints it when the duration is finite, and the word \<open>unknown\<close>
  whenever it is not finite: \<open>NaN\<close> from a failed probe, and also an infinite
  duration that the probe did report. What \<^verbatim>\<open>toFixed(2)\<close> prints is the value to two
  decimals for every magnitude below \<open>10^21\<close>. The probed duration is a JavaScript
  number, so a finite one is a double.
\<close>

theorem handleFilePick_duration_check:
  assumes "representable (case p of Loaded d \<Rightarrow> d | LoadError \<Rightarrow> NaN)"
  shows "(let dur = (case p of Loaded d \<Rightarrow> d | LoadError \<Rightarrow> NaN);
        w' = handleFilePick n2s (Some f) p w
    in selectedFile w' = (if within_tolerance dur then Some f else None) \<and>
       error w' =
         (if within_tolerance dur then []
          else ''Selected video must be ~60s. Detected '' @
               (case dur of Fin x \<Rightarrow> toFixed2 n2s (Fin x) | _ \<Rightarrow> ''unknown'') @ ''s.'') \<and>
       (\<forall>x. \<bar>x\<bar> < 10 ^ 21 \<longrightarrow> toFixed2 n2s (Fin x) = two_decimals x))"
proof -
  define dur where "dur = (case p of Loaded d \<Rightarrow> d | LoadError \<Rightarrow> NaN)"
  have rep: "representable dur"
    using assms by (simp add: dur_def)
  have pr: "fst (validateDurationApprox60 p w) = dur"
    by (simp add: probe_result dur_def)
  have sel: "selectedFile (handleFilePick n2s (Some f) p w) = (if within_tolerance dur then Some f else None)"
    by (simp add: selectedFile_handleFilePick pr duration_rejected_iff [OF rep])
  have err: "error (handleFilePick n2s (Some f) p w) =
         (if within_tolerance dur then []
          else ''Selected video must be ~60s. Detected '' @
               (case dur of Fin x \<Rightarrow> toFixed2 n2s (Fin x) | _ \<Rightarrow> ''unknown'') @ ''s.'')"
    unfolding error_handleFilePick pr duration_rejected_iff [OF rep] reason_cases by simp
  have fmt: "\<forall>x. \<bar>x\<bar> < 10 ^ 21 \<longrightarrow> toFixed2 n2s (Fin x) = two_decimals x"
    using toFixed2_two_decimals by blast
  show ?thesis
    unfolding Let_def dur_def [symmetric] using sel err fmt by (intro conjI)
qed

text \<open>The theorem at a 70-second and at a 58-second file.\<close>

theorem handleFilePick_duration_check_witness:
  "representable (Fin 70) \<and> representable (Fin 58) \<and>
   selectedFile (handleFilePick (num2str plain_runtime) (Some clip) (Loaded (Fin 70)) initial) = None \<and>
   error (handleFilePick (num2str plain_runtime) (Some clip) (Loaded (Fin 70)) initial) =
     ''Selected video must be ~60s. Detected 70.00s.'' \<and>
   selectedFile (handleFilePick (num2str plain_runtime) (Some clip) (Loaded (Fin 58)) initial) = Some clip \<and>
   error (handleFilePick (num2str plain_runtime) (Some clip) (Loaded (Fin 58)) initial) = []"
proof -
  have a: "\<bar>70::rat\<bar> < 10 ^ 21" by simp
  have r70: "representable (case Loaded (Fin 70) of Loaded d \<Rightarrow> d | LoadError \<Rightarrow> NaN)"
    by (simp add: is_double_70)
  have r58: "representable (case Loaded (Fin 58) of Loaded d \<Rightarrow> d | LoadError \<Rightarrow> NaN)"
    by (simp add: is_double_58)
  note t70 = handleFilePick_duration_check [OF r70, of "num2str plain_runtime" clip initial,
      unfolded Let_def probe.case]
  note t58 = handleFilePick_duration_check [OF r58, of "num2str plain_runtime" clip initial,
      unfolded Let_def probe.case]
  have e: "toFixed2 (num2str plain_runtime) (Fin 70) = ''70.00''"
    using conjunct2 [OF conjunct2 [OF t70], rule_format, OF a] by (simp only: two_decimals_70)
  have s70: "selectedFile (handleFilePick (num2str plain_runtime) (Some clip) (Loaded (Fin 70)) initial) = None"
    using conjunct1 [OF t70] by simp
  have e70: "error (handleFilePick (num2str plain_runtime) (Some clip) (Loaded (Fin 70)) initial) =
     ''Selected video must be ~60s. Detected '' @ toFixed2 (num2str plain_runtime) (Fin 70) @ ''s.''"
    using conjunct1 [OF conjunct2 [OF t70]] by simp
  have s58: "selectedFile (handleFilePick (num2str plain_runtime) (Some clip) (Loaded (Fin 58)) initial) = Some clip"
    using conjunct1 [OF t58] by simp
  have e58: "error (handleFilePick (num2str plain_runtime) (Some clip) (Loaded (Fin 58)) initial) = []"
    using conjunct1 [OF conjunct2 [OF t58]] by simp
  show ?thesis
    unfolding s70 s58 e58 e70 e using is_double_70 is_double_58 by simp
qed

text \<open>
  Claim C1 as written fails on a file whose metadata loads with an infinite duration:
  the probe did not fail and the duration is not \<open>NaN\<close>, yet the reason says
  \<open>unknown\<close> and embeds no formatted duration.
\<close>

theorem unknown_for_infinite_duration:
  "fst (validateDurationApprox60 (Loaded PosInf) initial) = PosInf \<and>
   selectedFile (handleFilePick (num2str plain_runtime) (Some clip) (Loaded PosInf) initial) = None \<and>
   error (handleFilePick (num2str plain_runtime) (Some clip) (Loaded PosInf) initial) =
     ''Selected video must be ~60s. Detected unknowns.''"
  by (simp add: selectedFile_handleFilePick error_handleFilePick probe_result
      duration_rejected_def rejection_reason_def)

text \<open>
  Claim C3, as the code has it. Acceptance is symmetric around 60 seconds with an
  inclusive 3-second boundary: when \<open>60 + x\<close> and \<open>60 - x\<close> are durations that a
  JavaScript number can hold, the one is accepted exactly when the other is, and
  exactly when \<open>\<bar>x\<bar> \<le> 3\<close>. So 57 and 63 seconds are accepted, the doubles nearest to
  56.9 and to 63.01 seconds are rejected, and a duration of \<open>NaN\<close>, reported or from
  a failed probe, is rejected.
\<close>

theorem duration_acceptance_window:
  assumes "is_double (60 + x)" and "is_double (60 - x)"
  shows
  "(selectedFile (handleFilePick n2s (Some f) (Loaded (Fin (60 + x))) w) = Some f
      \<longleftrightarrow> selectedFile (handleFilePick n2s (Some f) (Loaded (Fin (60 - x))) w) = Some f) \<and>
   (selectedFile (handleFilePick n2s (Some f) (Loaded (Fin (60 + x))) w) = Some f \<longleftrightarrow> \<bar>x\<bar> \<le> 3) \<and>
   selectedFile (handleFilePick n2s (Some f) (Loaded (Fin 57)) w) = Some f \<and>
   selectedFile (handleFilePick n2s (Some f) (Loaded (Fin 63)) w) = Some f \<and>
   selectedFile (handleFilePick n2s (Some f) (Loaded (round_double (569 / 10))) w) = None \<and>
   selectedFile (handleFilePick n2s (Some f) (Loaded (round_double (6301 / 100))) w) = None \<and>
   selectedFile (handleFilePick n2s (Some f) (Loaded NaN) w) = None \<and>
   selectedFile (handleFilePick n2s (Some f) LoadError w) = None"
proof -
  have up: "selectedFile (handleFilePick n2s (Some f) (Loaded (Fin (60 + x))) w) =
      (if \<bar>x\<bar> \<le> 3 then Some f else None)"
    using assms(1) by (simp add: selected_iff)
  have down: "selectedFile (handleFilePick n2s (Some f) (Loaded (Fin (60 - x))) w) =
      (if \<bar>x\<bar> \<le> 3 then Some f else None)"
    using assms(2) by (simp add: selected_iff abs_if)
  have a57: "selectedFile (handleFilePick n2s (Some f) (Loaded (Fin 57)) w) = Some f"
    by (simp add: selected_iff is_double_57)
  have a63: "selectedFile (handleFilePick n2s (Some f) (Loaded (Fin 63)) w) = Some f"
    by (simp add: selected_iff is_double_63)
  have r569: "selectedFile (handleFilePick n2s (Some f) (Loaded (round_double (569 / 10))) w) = None"
    unfolding round_56_9 using is_double_56_9 by (simp add: selected_iff)
  have r6301: "selectedFile (handleFilePick n2s (Some f) (Loaded (round_double (6301 / 100))) w) = None"
    unfolding round_63_01 using is_double_63_01 by (simp add: selected_iff)
  have rnan: "selectedFile (handleFilePick n2s (Some f) (Loaded NaN) w) = None"
    by (simp add: selected_iff)
  have rerr: "selectedFile (handleFilePick n2s (Some f) LoadError w) = None"
    by (simp add: selectedFile_handleFilePick probe_result duration_rejected_def)
  show ?thesis
    unfolding up down a57 a63 r569 r6301 rnan rerr by simp
qed

text \<open>The theorem at \<open>x = 2\<close>: 62 and 58 seconds are both accepted.\<close>

theorem duration_acceptance_window_witness:
  "is_double (60 + 2) \<and> is_double (60 - 2) \<and>
   selectedFile (handleFilePick (num2str plain_runtime) (Some clip) (Loaded (Fin (60 + 2))) initial) = Some clip \<and>
   selectedFile (handleFilePick (num2str plain_runtime) (Some clip) (Loaded (Fin (60 - 2))) initial) = Some clip \<and>
   selectedFile (handleFilePick (num2str plain_runtime) (Some clip) (Loaded (Fin 57)) initial) = Some clip \<and>
   selectedFile (handleFilePick (num2str plain_runtime) (Some clip) (Loaded (round_double (569 / 10))) initial) = None"
proof -
  have d62: "is_double (60 + 2)"
    by (rule dyadic_double [of 5 _ "62 * 2 ^ 47"]) simp_all
  have d58: "is_double (60 - 2)"
    using is_double_58 by simp
  note t = duration_acceptance_window [OF d62 d58, of "num2str plain_runtime" clip initial]
  have up: "selectedFile (handleFilePick (num2str plain_runtime) (Some clip) (Loaded (Fin (60 + 2))) initial) = Some clip"
    using conjunct1 [OF conjunct2 [OF t]] by simp
  have down: "selectedFile (handleFilePick (num2str plain_runtime) (Some clip) (Loaded (Fin (60 - 2))) initial) = Some clip"
    using conjunct1 [OF t] up by simp
  have a57: "selectedFile (handleFilePick (num2str plain_runtime) (Some clip) (Loaded (Fin 57)) initial) = Some clip"
    by (rule conjunct1 [OF conjunct2 [OF conjunct2 [OF t]]])
  have r569: "selectedFile (handleFilePick (num2str plain_runtime) (Some clip) (Loaded (round_double (569 / 10))) initial) = None"
    by (rule conjunct1 [OF conjunct2 [OF conjunct2 [OF conjunct2 [OF conjunct2 [OF t]]]]])
  show ?thesis
    using d62 d58 up down a57 r569 by (intro conjI)
qed

text \<open>
  Claim C3 as written says that a file of 56.9 seconds is accepted; it is 3.1 seconds
  from the target and the code rejects it, with its duration in the reason.
\<close>

theorem rejects_56_9:
  "selectedFile (handleFilePick (num2str plain_runtime) (Some clip) (Loaded (round_double (569 / 10))) initial) = None \<and>
   error (handleFilePick (num2str plain_runtime) (Some clip) (Loaded (round_double (569 / 10))) initial) =
     ''Selected video must be ~60s. Detected 56.90s.''"
proof -
  have "\<bar>8007963087418163 / 2 ^ 47 :: rat\<bar> < 10 ^ 21"
    by simp
  then have fmt: "toFixed2 (num2str plain_runtime) (Fin (8007963087418163 / 2 ^ 47)) = ''56.90''"
    by (simp only: toFixed2_two_decimals two_decimals_56_9)
  have rej: "duration_rejected (Fin (8007963087418163 / 2 ^ 47))"
    using is_double_56_9 by (simp add: duration_rejected_iff)
  show ?thesis
    unfolding round_56_9
    by (simp only: selectedFile_handleFilePick error_handleFilePick probe_result probe.case
        rej if_True rejection_reason_def jsnum.case isFinite.simps fmt) simp
qed

section \<open>What an upload changes\<close>

lemma send_try_not_ok:
  "\<not> ok st \<Longrightarrow>
   send_try rt (Response st txt b) w = Inl (new_Error (''Upload failed: '' @ show_nat st @ '' '' @ txt), w)"
  by (simp add: send_try_def)

lemma String_of_new_Error: "String_of_error (new_Error msg) = (if msg = [] then ''Error'' else ''Error: '' @ msg)"
  by (simp add: String_of_error_def new_Error_def)

lemma send_not_ok:
  assumes "\<not> ok st"
  shows "send rt f l (Response st txt b) w =
     w\<lparr>isSending := False,
       error := ''Error: Upload failed: '' @ show_nat st @ '' '' @ txt,
       requests := requests w @ [send_request f l]\<rparr>"
  using assms
  by (simp add: send_def send_settle_def send_try_not_ok send_begin_def String_of_new_Error)



lemma send_unparseable:
  assumes "ok st"
  shows "send rt f l (Response st txt Unparseable) w =
     w\<lparr>isSending := False, error := [], requests := requests w @ [send_request f l]\<rparr>"
  using assms
  by (simp add: send_def send_settle_def send_try_def send_begin_def)

lemma isSending_send_settle: "isSending (send_settle rt out w) = False"
  by (simp add: send_settle_def split: sum.split prod.split)

lemma show_nat_500: "show_nat 500 = ''500''"
  by (simp add: show_digits)









text \<open>
  Claim C8. On a response whose status is not 2xx, \<^verbatim>\<open>send\<close> has made exactly one
  request and changed nothing but the error, which carries the status, and the
  sending flag: the status, the recorded artifact and the blob URL are as before, so
  the artifact can be sent again.
\<close>

theorem send_failure_leaves_session:
  assumes "\<not> ok st"
  shows "send rt f l (Response st txt b) w =
           w\<lparr>isSending := False,
             error := ''Error: Upload failed: '' @ show_nat st @ '' '' @ txt,
             requests := requests w @ [send_request f l]\<rparr> \<and>
         status (send rt f l (Response st txt b) w) = status w \<and>
         recordedBlob (send rt f l (Response st txt b) w) = recordedBlob w \<and>
         blobUrl (send rt f l (Response st txt b) w) = blobUrl w \<and>
         length (requests (send rt f l (Response st txt b) w)) = Suc (length (requests w))"
  by (simp add: send_not_ok [OF assms])

text \<open>The theorem at a response 500.\<close>

theorem send_failure_leaves_session_witness:
  "\<not> ok 500 \<and>
   error (send plain_runtime clip ''recorded'' (Response 500 ''Internal Server Error'' Unparseable) initial) =
     ''Error: Upload failed: 500 Internal Server Error'' \<and>
   status (send plain_runtime clip ''recorded'' (Response 500 ''Internal Server Error'' Unparseable) initial) = Idle \<and>
   length (requests (send plain_runtime clip ''recorded'' (Response 500 ''Internal Server Error'' Unparseable) initial)) = 1"
proof -
  have k: "\<not> ok 500"
    by (simp add: ok_def)
  note t = send_failure_leaves_session [OF k, of plain_runtime clip "''recorded''"
      "''Internal Server Error''" Unparseable initial]
  have "error (send plain_runtime clip ''recorded'' (Response 500 ''Internal Server Error'' Unparseable) initial) =
     ''Error: Upload failed: '' @ show_nat 500 @ '' '' @ ''Internal Server Error''"
    by (simp add: conjunct1 [OF t])
  then show ?thesis
    using k t by (simp add: show_nat_500 initial_def)
qed

text \<open>
  Claim C10. \<^verbatim>\<open>send\<close> sets \<^verbatim>\<open>isSending\<close> on entry, and once \<^verbatim>\<open>fetch\<close> has settled,
  whatever the outcome (a 2xx response with or without a parseable body, another
  status, a rejection of \<^verbatim>\<open>fetch\<close>), the flag is false again.
\<close>

theorem isSending_restored:
  "isSending (send_begin f l w) \<and>
   \<not> isSending (send_settle rt out (send_begin f l w)) \<and>
   \<not> isSending (send rt f l out w)"
  by (simp add: isSending_send_settle send_def) (simp add: send_begin_def)

text \<open>The theorem on each of the four exits.\<close>

theorem isSending_restored_witness:
  "isSending (send_begin clip ''recorded'' initial) \<and>
   \<not> isSending (send plain_runtime clip ''recorded'' (Response 200 ''OK'' (Parsed (JObj []))) initial) \<and>
   \<not> isSending (send plain_runtime clip ''recorded'' (Response 500 ''Internal Server Error'' Unparseable) initial) \<and>
   \<not> isSending (send plain_runtime clip ''recorded'' (Response 200 ''OK'' Unparseable) initial) \<and>
   \<not> isSending (send plain_runtime clip ''recorded''
        (NetworkFault \<lparr>err_name = ''TypeError'', err_message = ''Failed to fetch''\<rparr>) initial)"
  using isSending_restored [of clip "''recorded''" initial plain_runtime "Response 200 ''OK'' (Parsed (JObj []))"]
    isSending_restored [of clip "''recorded''" initial plain_runtime "Response 500 ''Internal Server Error'' Unparseable"]
    isSending_restored [of clip "''recorded''" initial plain_runtime "Response 200 ''OK'' Unparseable"]
    isSending_restored [of clip "''recorded''" initial plain_runtime
      "NetworkFault \<lparr>err_name = ''TypeError'', err_message = ''Failed to fetch''\<rparr>"]
  by simp

section \<open>Stop and cleanup\<close>

lemma stop_body_eq:
  "stop_body w =
     Inr (w\<lparr>recorders := halted (recorderRef w) (recorders w),
            timers := cleared (stopTimerRef w) (countdownTimerRef w) (timers w)\<rparr>)"
proof -
  have rec: "(case recorderRef w of
              Some r \<Rightarrow> if is_recording w r then MediaRecorder_stop r w else Inr w
            | None \<Rightarrow> Inr w) = Inr (w\<lparr>recorders := halted (recorderRef w) (recorders w)\<rparr>)"
    by (simp add: halted_def is_recording_def MediaRecorder_stop_def split: option.split)
  show ?thesis
    unfolding stop_body_def rec
    by (cases "stopTimerRef w"; cases "countdownTimerRef w")
       (simp_all add: clear_timer_def Let_def cleared_def case_prod_unfold)
qed

lemma stop_eq:
  "stop w =
     w\<lparr>recorders := halted (recorderRef w) (recorders w),
       timers := cleared (stopTimerRef w) (countdownTimerRef w) (timers w)\<rparr>"
  by (simp add: stop_def stop_body_eq)

lemma cleanup_eq:
  "cleanup seen w =
     w\<lparr>recorders := halted (recorderRef w) (recorders w),
       timers := cleared (stopTimerRef w) (countdownTimerRef w) (timers w),
       streams := released (streamRef w) (streams w),
       streamRef := None,
       urls := revoked seen (urls w)\<rparr>"
  by (cases seen; cases "streamRef w")
     (simp_all add: cleanup_def stop_eq Let_def stop_tracks_def released_def revoked_def
       revokeObjectURL_def)

lemma halted_idem: "halted ref (halted ref rs) = halted ref rs"
  by (cases ref) (simp_all add: halted_def)

lemma cleared_idem: "cleared a b (cleared a b ts) = cleared a b ts"
  by (simp add: cleared_def case_prod_unfold)

lemma revoked_idem: "revoked seen (revoked seen us) = revoked seen us"
  by (cases seen) (simp_all add: revoked_def)

lemma cleanup_twice: "cleanup seen (cleanup seen w) = cleanup seen w"
  by (simp add: cleanup_eq halted_idem cleared_idem revoked_idem released_def)

lemma stop_twice: "stop (stop w) = stop w"
  by (simp add: stop_eq halted_idem cleared_idem)

lemma cleanup_many: "(cleanup seen ^^ Suc n) w = cleanup seen w"
  by (induction n) (simp_all add: cleanup_twice)

lemma released_ended:
  assumes "s < length ss"
  shows "\<forall>t \<in> set (released (Some s) ss ! s). t = Ended"
  using assms by (simp add: released_def)

text \<open>
  Claim C9. \<^verbatim>\<open>cleanup\<close> is idempotent from any state: a second call, and any number
  of further calls, leave the world of the first. No call throws: the only statement
  of \<^verbatim>\<open>stop\<close> that can throw is guarded, before and after a cleanup. After the first
  call the stream handle is cleared and every track of the stream that was held is
  ended, and a second call does not touch the streams.
\<close>

theorem cleanup_idempotent:
  "cleanup seen (cleanup seen w) = cleanup seen w \<and>
   (cleanup seen ^^ Suc n) w = cleanup seen w \<and>
   stop_body w = Inr (stop w) \<and>
   stop_body (cleanup seen w) = Inr (stop (cleanup seen w)) \<and>
   streamRef (cleanup seen w) = None \<and>
   (\<forall>s. streamRef w = Some s \<and> s < length (streams w) \<longrightarrow>
        (\<forall>t \<in> set (streams (cleanup seen w) ! s). t = Ended)) \<and>
   streams (cleanup seen (cleanup seen w)) = streams (cleanup seen w)"
proof (intro conjI allI impI)
  show "cleanup seen (cleanup seen w) = cleanup seen w"
    by (rule cleanup_twice)
  show "(cleanup seen ^^ Suc n) w = cleanup seen w"
    by (rule cleanup_many)
  show "stop_body w = Inr (stop w)"
    by (simp add: stop_def stop_body_eq)
  show "stop_body (cleanup seen w) = Inr (stop (cleanup seen w))"
    by (simp add: stop_def stop_body_eq)
  show "streamRef (cleanup seen w) = None"
    by (simp add: cleanup_eq)
  show "streams (cleanup seen (cleanup seen w)) = streams (cleanup seen w)"
    by (simp add: cleanup_twice)
next
  fix s
  assume "streamRef w = Some s \<and> s < length (streams w)"
  then show "\<forall>t \<in> set (streams (cleanup seen w) ! s). t = Ended"
    by (simp add: cleanup_eq released_def)
qed

lemma camera_open:
  "snd (ensureStream Granted initial) =
     initial\<lparr>streams := [[Live, Live]], streamRef := Some 0, video_srcObject := Some 0, status := Ready\<rparr>"
  by (simp add: ensureStream_def initial_def)

text \<open>The theorem on the component with its camera open.\<close>

theorem cleanup_idempotent_witness:
  "streamRef (snd (ensureStream Granted initial)) = Some 0 \<and>
   streams (snd (ensureStream Granted initial)) = [[Live, Live]] \<and>
   streams (cleanup None (snd (ensureStream Granted initial))) = [[Ended, Ended]] \<and>
   streamRef (cleanup None (snd (ensureStream Granted initial))) = None \<and>
   cleanup None (cleanup None (snd (ensureStream Granted initial))) =
     cleanup None (snd (ensureStream Granted initial))"
proof -
  note t = cleanup_idempotent [of None "snd (ensureStream Granted initial)" 0]
  have "streams (cleanup None (snd (ensureStream Granted initial))) = [[Ended, Ended]]"
    by (simp add: cleanup_eq camera_open released_def)
  then show ?thesis
    using t by (simp add: camera_open)
qed

section \<open>Calls that wait for the camera\<close>

text \<open>
  \<^verbatim>\<open>ensureStream\<close> and \<^verbatim>\<open>start\<close> with the answer of the platform as their argument are
  the call followed at once by the settlements of what it waits for.
\<close>

lemma drop_nth_single: "drop_nth 0 [x] = []"
  by (simp add: drop_nth_def)

lemma ensureStream_in_steps:
  assumes "awaiting w = []"
  shows "run rt [OpenCameraCalled, MediaSettles 0 None, PlaySettles 0 None] w =
           snd (ensureStream Granted w)"
    and "run rt [OpenCameraCalled, MediaSettles 0 None, PlaySettles 0 (Some e)] w =
           snd (ensureStream (GrantedPlayRejects e) w)"
    and "run rt [OpenCameraCalled, MediaSettles 0 (Some e)] w = snd (ensureStream (Denied e) w)"
proof -
  have w: "w\<lparr>awaiting := []\<rparr> = w"
    using assms by simp
  show "run rt [OpenCameraCalled, MediaSettles 0 None, PlaySettles 0 None] w =
           snd (ensureStream Granted w)"
    using assms
    by (cases "streamRef w")
       (simp_all add: run_def openCamera_called_def media_settles_def play_settles_def
          ensureStream_def ensureStream_granted_def ensureStream_played_def drop_nth_single Let_def)
  show "run rt [OpenCameraCalled, MediaSettles 0 None, PlaySettles 0 (Some e)] w =
           snd (ensureStream (GrantedPlayRejects e) w)"
    using assms
    by (cases "streamRef w")
       (simp_all add: run_def openCamera_called_def media_settles_def play_settles_def rejected_def
          ensureStream_def ensureStream_granted_def drop_nth_single Let_def)
  show "run rt [OpenCameraCalled, MediaSettles 0 (Some e)] w = snd (ensureStream (Denied e) w)"
    using assms w
    by (cases "streamRef w")
       (simp_all add: run_def openCamera_called_def media_settles_def rejected_def
          ensureStream_def drop_nth_single Let_def)
qed

lemma start_in_steps:
  assumes "awaiting w = []"
  shows "run rt [StartCalled, MediaSettles 0 None, PlaySettles 0 None] w = start Granted w"
    and "run rt [StartCalled, MediaSettles 0 None, PlaySettles 0 (Some e)] w =
           start (GrantedPlayRejects e) w"
    and "run rt [StartCalled, MediaSettles 0 (Some e)] w = start (Denied e) w"
proof -
  have a: "awaiting (start_countdown s (start_reset w)) = []" for s
    using assms by (simp add: start_countdown_def start_reset_def set_timer_def Let_def)
  show "run rt [StartCalled, MediaSettles 0 None, PlaySettles 0 None] w = start Granted w"
    using assms
    by (cases "streamRef w")
       (simp_all add: run_def start_called_def media_settles_def play_settles_def a
          start_def start_reset_def start_countdown_def set_timer_def
          ensureStream_def ensureStream_granted_def ensureStream_played_def drop_nth_single Let_def)
  show "run rt [StartCalled, MediaSettles 0 None, PlaySettles 0 (Some e)] w =
           start (GrantedPlayRejects e) w"
    using assms
    by (cases "streamRef w")
       (simp_all add: run_def start_called_def media_settles_def play_settles_def a rejected_def
          start_def start_reset_def start_countdown_def start_catch_def set_timer_def
          ensureStream_def ensureStream_granted_def drop_nth_single Let_def)
  show "run rt [StartCalled, MediaSettles 0 (Some e)] w = start (Denied e) w"
    using assms
    by (cases "streamRef w")
       (simp_all add: run_def start_called_def media_settles_def a rejected_def
          start_def start_reset_def start_countdown_def start_catch_def set_timer_def
          ensureStream_def drop_nth_single Let_def)
qed

text \<open>
  Two presses of the camera button before the first has been answered: both calls
  have passed the test of \<^verbatim>\<open>streamRef\<close>, so both ask for a stream; \<^verbatim>\<open>streamRef\<close> keeps
  the second one, and \<^verbatim>\<open>cleanup\<close> stops the tracks of that one only.
\<close>

lemma overlapping_calls_two_streams:
  "streams (run plain_runtime overlapping_camera_calls initial) = [[Live, Live], [Live, Live]] \<and>
   streamRef (run plain_runtime overlapping_camera_calls initial) = Some 1 \<and>
   status (run plain_runtime overlapping_camera_calls initial) = Ready \<and>
   awaiting (run plain_runtime overlapping_camera_calls initial) = [] \<and>
   streams (unmount (run plain_runtime overlapping_camera_calls initial)) =
     [[Live, Live], [Ended, Ended]]"
  by (simp add: overlapping_camera_calls_def run_def openCamera_called_def media_settles_def
      play_settles_def ensureStream_granted_def ensureStream_played_def drop_nth_def
      unmount_def cleanup_eq released_def initial_def Let_def)

section \<open>Stopping during the countdown\<close>

lemma status_stop: "status (stop w) = status w"
  by (simp add: stop_eq)

lemma start_initial:
  "start Granted initial =
     initial\<lparr>streams := [[Live, Live]], streamRef := Some 0, video_srcObject := Some 0,
       status := Countdown, countdown := 5, chunksRef := [],
       timers := [(1, CountdownInterval 5 0 1000)], next_timer := 2,
       countdownTimerRef := Some 1\<rparr>"
  by (simp add: start_def ensureStream_def set_timer_def initial_def Let_def)

text \<open>
  Claim C6 on the code. \<^verbatim>\<open>start\<close> on the fresh component and then \<^verbatim>\<open>stop\<close>: the
  countdown interval is cancelled, no encoder exists, no artifact exists, and the
  cancelled timer can fire no more; but \<^verbatim>\<open>stop\<close> sets no status, so the status is
  still \<open>Countdown\<close> and not \<open>Ready\<close>.
\<close>

theorem stop_in_countdown_keeps_status:
  "status (start Granted initial) = Countdown \<and>
   status (stop (start Granted initial)) = Countdown \<and>
   timers (stop (start Granted initial)) = [] \<and>
   recorders (stop (start Granted initial)) = [] \<and>
   recordedBlob (stop (start Granted initial)) = None \<and>
   fire_timer browser 1 (stop (start Granted initial)) = stop (start Granted initial)"
  by (simp add: stop_eq start_initial cleared_def halted_def fire_timer_def) (simp add: initial_def)

section \<open>The countdown\<close>

text \<open>The definitions that the simplifier unfolds to execute a concrete run.\<close>

lemmas exec_defs =
  run_def start_def ensureStream_def set_timer_def clear_timer_def fire_timer_def
  beginRecording_def new_MediaRecorder_def MediaRecorder_start_def pickSupportedMime_def
  mime_options_def stop_eq halted_def cleared_def encoder_halts_def is_recording_def
  deliver_stop_def onstop_def createObjectURL_def new_Blob_def str_or_def
  initial_def browser_def Let_def live_encoders_def countdown_pending_def
  countdown_ticks_def

lemma fresh_lookup:
  assumes "fresh_handles w"
  shows "map_of (timers w @ [(next_timer w, t)]) (next_timer w) = Some t"
proof -
  have "next_timer w \<notin> fst ` set (timers w)"
    using assms by (auto simp: fresh_handles_def)
  then have "map_of (timers w) (next_timer w) = None"
    by (simp add: map_of_eq_None_iff)
  then show ?thesis
    by (simp add: map_add_def)
qed

lemma fresh_map:
  assumes "fresh_handles w"
  shows "map (\<lambda>(i, t). if i = next_timer w then (i, u) else (i, t)) (timers w) = timers w"
proof -
  have "\<forall>x \<in> set (timers w). (\<lambda>(i, t). if i = next_timer w then (i, u) else (i, t)) x = x"
    using assms by (auto simp: fresh_handles_def)
  then show ?thesis
    by (simp add: map_idI)
qed

lemma fresh_filter:
  assumes "fresh_handles w"
  shows "filter (\<lambda>(i, t). i \<noteq> next_timer w) (timers w) = timers w"
proof -
  have "\<forall>x \<in> set (timers w). (\<lambda>(i, t). i \<noteq> next_timer w) x"
    using assms by (auto simp: fresh_handles_def)
  then show ?thesis
    by (simp add: filter_id_conv)
qed

lemma ensureStream_cong:
  "streamRef w1 = streamRef w \<Longrightarrow> streams w1 = streams w \<Longrightarrow>
   fst (ensureStream c w1) = fst (ensureStream c w)"
  by (simp add: ensureStream_def Let_def split: option.split capture.split)

lemma ensureStream_keeps:
  "timers (snd (ensureStream c w)) = timers w"
  "next_timer (snd (ensureStream c w)) = next_timer w"
  "now (snd (ensureStream c w)) = now w"
  "recorders (snd (ensureStream c w)) = recorders w"
  by (simp_all add: ensureStream_def Let_def split: option.split capture.split)

lemma start_counting:
  assumes "fst (ensureStream c w) = Inr s"
  shows "counting w (next_timer w) s 0 (start c w)"
proof -
  define w1 where "w1 = w\<lparr>error := [], blobUrl := None, recordedBlob := None, accuracy := None\<rparr>"
  obtain w2 where e: "ensureStream c w1 = (Inr s, w2)"
    using assms ensureStream_cong [of w1 w c] by (cases "ensureStream c w1") (simp add: w1_def)
  have k: "timers w2 = timers w" "next_timer w2 = next_timer w" "now w2 = now w" "recorders w2 = recorders w"
    using ensureStream_keeps [of c w1] e by (simp_all add: w1_def)
  have "start c w = (let w3 = w2\<lparr>chunksRef := [], countdown := 5, status := Countdown\<rparr>;
                  (h, w4) = set_timer (CountdownInterval 5 s (now w3 + 1000)) w3
              in w4\<lparr>countdownTimerRef := Some h\<rparr>)"
    using e by (simp add: start_def w1_def Let_def)
  then show ?thesis
    using k by (simp add: counting_def set_timer_def Let_def)
qed


lemma fire_interval:
  assumes "map_of (timers w) h = Some (CountdownInterval n s d)"
  shows "fire_timer m h w =
     (let w2 = w\<lparr>now := max (now w) d,
                   timers := map (\<lambda>(i, t). if i = h then (i, CountdownInterval (n - 1) s (d + 1000))
                                             else (i, t)) (timers w),
                   countdown := n - 1\<rparr>
      in if n - 1 \<le> 0
         then beginRecording m s (case countdownTimerRef w of Some c \<Rightarrow> clear_timer c w2 | None \<Rightarrow> w2)
         else w2)"
  using assms by (simp add: fire_timer_def Let_def split: option.split)

lemma fire_absent:
  assumes "map_of (timers w) h = None"
  shows "fire_timer m h w = w"
  using assms by (simp add: fire_timer_def)

lemma counting_step:
  assumes f: "fresh_handles w" and c: "counting w (next_timer w) s k w'" and k: "k < 4"
  shows "counting w (next_timer w) s (Suc k) (fire_timer m (next_timer w) w')"
proof -
  let ?h = "next_timer w"
  have look: "map_of (timers w') ?h = Some (CountdownInterval (5 - int k) s (now w + 1000 * Suc k))"
    using c fresh_lookup [OF f] by (simp add: counting_def)
  have upd: "map (\<lambda>(i, t). if i = ?h then (i, CountdownInterval (5 - int k - 1) s (now w + 1000 * Suc k + 1000))
                              else (i, t)) (timers w') =
             timers w @ [(?h, CountdownInterval (5 - int (Suc k)) s (now w + 1000 * Suc (Suc k)))]"
    using c fresh_map [OF f] by (simp add: counting_def)
  have pos: "\<not> 5 - int k - 1 \<le> 0"
    using k by simp
  have "fire_timer m ?h w' =
          w'\<lparr>now := max (now w') (now w + 1000 * Suc k),
             timers := timers w @ [(?h, CountdownInterval (5 - int (Suc k)) s (now w + 1000 * Suc (Suc k)))],
             countdown := 5 - int k - 1\<rparr>"
    unfolding fire_interval [OF look] Let_def upd using pos by simp
  then show ?thesis
    using c by (simp add: counting_def)
qed

lemma counting_last:
  assumes f: "fresh_handles w" and c: "counting w (next_timer w) s 4 w'"
  shows "fire_timer m (next_timer w) w' =
           beginRecording m s (w'\<lparr>now := max (now w') (now w + 5000), countdown := 0, timers := timers w\<rparr>)"
proof -
  let ?h = "next_timer w"
  have look: "map_of (timers w') ?h = Some (CountdownInterval 1 s (now w + 5000))"
    using c fresh_lookup [OF f] by (simp add: counting_def)
  have upd: "map (\<lambda>(i, t). if i = ?h then (i, CountdownInterval (1 - 1) s (now w + 5000 + 1000))
                              else (i, t)) (timers w') =
             timers w @ [(?h, CountdownInterval 0 s (now w + 6000))]"
    using c fresh_map [OF f] by (simp add: counting_def)
  have ref: "countdownTimerRef w' = Some ?h"
    using c by (simp add: counting_def)
  show ?thesis
    unfolding fire_interval [OF look] Let_def upd
    using fresh_filter [OF f] by (simp add: ref clear_timer_def)
qed


lemma beginRecording_keeps:
  "countdown (beginRecording m s w) = countdown w"
  "now (beginRecording m s w) = now w"
  "countdownTimerRef (beginRecording m s w) = countdownTimerRef w"
  by (simp_all add: beginRecording_def new_MediaRecorder_def MediaRecorder_start_def set_timer_def
      Let_def split: option.split)

lemma beginRecording_timers:
  "timers (beginRecording m s w) =
     (if works m then timers w @ [(next_timer w, StopTimeout (now w + 60000))] else timers w)"
  by (auto simp: beginRecording_def new_MediaRecorder_def MediaRecorder_start_def set_timer_def
      works_def Let_def split: option.split)

lemma beginRecording_recorders:
  "recorders (beginRecording m s w) =
     (if has_MediaRecorder m \<and> constructor_throws m = None
      then recorders w @
           [\<lparr>rec_state = (if start_throws m = None then RRecording else RInactive),
             rec_stream = s,
             rec_mimeType = (case pickSupportedMime m of Some ty \<Rightarrow> ty | None \<Rightarrow> default_mimeType m),
             stop_queued = False\<rparr>]
      else recorders w)"
  by (auto simp: beginRecording_def new_MediaRecorder_def MediaRecorder_start_def set_timer_def
      Let_def split: option.split)

lemma beginRecording_status:
  "status (beginRecording m s w) = (if works m then Recording else Error)"
  by (auto simp: beginRecording_def new_MediaRecorder_def MediaRecorder_start_def set_timer_def
      works_def Let_def split: option.split)


lemma counting_iter:
  assumes f: "fresh_handles w" and e: "fst (ensureStream c w) = Inr s"
  shows "k \<le> 4 \<Longrightarrow> counting w (next_timer w) s k ((fire_timer m (next_timer w) ^^ k) (start c w))"
proof (induction k)
  case 0
  show ?case
    using start_counting [OF e] by simp
next
  case (Suc k)
  then have "counting w (next_timer w) s k ((fire_timer m (next_timer w) ^^ k) (start c w))" "k < 4"
    by simp_all
  then show ?case
    using counting_step [OF f] by simp
qed

lemma fifth_fire:
  assumes f: "fresh_handles w" and e: "fst (ensureStream c w) = Inr s"
  shows "\<exists>w'. counting w (next_timer w) s 4 w' \<and>
           (fire_timer m (next_timer w) ^^ 5) (start c w) =
             beginRecording m s (w'\<lparr>now := max (now w') (now w + 5000), countdown := 0, timers := timers w\<rparr>)"
proof -
  let ?w4 = "(fire_timer m (next_timer w) ^^ 4) (start c w)"
  have c4: "counting w (next_timer w) s 4 ?w4"
    using counting_iter [OF f e, of 4 m] by simp
  have "(fire_timer m (next_timer w) ^^ 5) (start c w) = fire_timer m (next_timer w) ?w4"
    by (simp add: numeral_eq_Suc)
  then show ?thesis
    using c4 counting_last [OF f c4, of m] by auto
qed

lemma fired_out:
  assumes f: "fresh_handles w" and e: "fst (ensureStream c w) = Inr s"
  shows "map_of (timers ((fire_timer m (next_timer w) ^^ 5) (start c w))) (next_timer w) = None"
proof -
  obtain w' where c4: "counting w (next_timer w) s 4 w'"
    and eq: "(fire_timer m (next_timer w) ^^ 5) (start c w) =
             beginRecording m s (w'\<lparr>now := max (now w') (now w + 5000), countdown := 0, timers := timers w\<rparr>)"
    using fifth_fire [OF f e] by blast
  have "next_timer w \<notin> fst ` set (timers w)"
    using f by (auto simp: fresh_handles_def)
  then have none: "map_of (timers w) (next_timer w) = None"
    by (simp add: map_of_eq_None_iff)
  have nt: "next_timer w' = Suc (next_timer w)"
    using c4 by (simp add: counting_def)
  show ?thesis
    unfolding eq beginRecording_timers using none nt by (simp add: map_add_def)
qed

lemma after_fifth:
  assumes f: "fresh_handles w" and e: "fst (ensureStream c w) = Inr s"
  shows "(fire_timer m (next_timer w) ^^ (j + 5)) (start c w) =
         (fire_timer m (next_timer w) ^^ 5) (start c w)"
proof (induction j)
  case 0
  show ?case by simp
next
  case (Suc j)
  have "(fire_timer m (next_timer w) ^^ (Suc j + 5)) (start c w) =
        fire_timer m (next_timer w) ((fire_timer m (next_timer w) ^^ (j + 5)) (start c w))"
    by (simp only: add_Suc funpow.simps o_apply)
  also have "\<dots> = fire_timer m (next_timer w) ((fire_timer m (next_timer w) ^^ 5) (start c w))"
    by (simp only: Suc.IH)
  also have "\<dots> = (fire_timer m (next_timer w) ^^ 5) (start c w)"
    by (rule fire_absent [OF fired_out [OF f e]])
  finally show ?case .
qed

lemma works_browser: "works browser"
  by (simp add: works_def browser_def)

text \<open>
  The countdown of one \<^verbatim>\<open>start\<close> when nothing but its own interval fires. After
  \<^verbatim>\<open>start\<close> (with the stream obtained) the counter shows 5 and the status is
  \<open>Countdown\<close>. The firings of the countdown interval show 4, 3, 2, 1, 0, the
  \<open>k\<close>-th not before \<open>k\<close> seconds; before the fifth no recorder has been added
  and the status is still \<open>Countdown\<close>. The fifth firing clears the interval and
  begins the capture; from then on the handle is not pending, so however often it is
  fired again the world is that of the fifth firing: exactly one recorder has been
  constructed (none if the browser's constructor throws), and the status is
  \<open>Recording\<close> in a browser where nothing throws.
\<close>

theorem countdown_then_one_capture:
  assumes "fresh_handles w" and "fst (ensureStream c w) = Inr s"
  shows "countdown (start c w) = 5 \<and> status (start c w) = Countdown \<and>
    map (\<lambda>k. countdown ((fire_timer m (next_timer w) ^^ k) (start c w))) [1, 2, 3, 4, 5] = [4, 3, 2, 1, 0] \<and>
    (\<forall>k < 5. recorders ((fire_timer m (next_timer w) ^^ k) (start c w)) = recorders w \<and>
             status ((fire_timer m (next_timer w) ^^ k) (start c w)) = Countdown) \<and>
    (\<forall>k \<le> 5. now w + 1000 * k \<le> now ((fire_timer m (next_timer w) ^^ k) (start c w))) \<and>
    (\<forall>k \<ge> 5. (fire_timer m (next_timer w) ^^ k) (start c w) =
              (fire_timer m (next_timer w) ^^ 5) (start c w)) \<and>
    (\<forall>k \<ge> 5. length (recorders ((fire_timer m (next_timer w) ^^ k) (start c w))) =
              length (recorders w) + (if has_MediaRecorder m \<and> constructor_throws m = None then 1 else 0)) \<and>
    status ((fire_timer m (next_timer w) ^^ 5) (start c w)) = (if works m then Recording else Error)"
proof -
  let ?F = "\<lambda>k. (fire_timer m (next_timer w) ^^ k) (start c w)"
  note ci = counting_iter [OF assms, of _ m]
  obtain w' where c4: "counting w (next_timer w) s 4 w'"
    and eq: "?F 5 =
             beginRecording m s (w'\<lparr>now := max (now w') (now w + 5000), countdown := 0, timers := timers w\<rparr>)"
    using fifth_fire [OF assms] by blast
  have five: "countdown (?F 5) = 0" "now w + 5000 \<le> now (?F 5)"
    "status (?F 5) = (if works m then Recording else Error)"
    "length (recorders (?F 5)) =
       length (recorders w) + (if has_MediaRecorder m \<and> constructor_throws m = None then 1 else 0)"
    unfolding eq using c4
    by (simp_all add: beginRecording_keeps beginRecording_status beginRecording_recorders counting_def)
  have before: "countdown (?F k) = 5 - int k" "recorders (?F k) = recorders w"
    "status (?F k) = Countdown" "now w + 1000 * k \<le> now (?F k)" if "k \<le> 4" for k
    using ci [OF that] by (simp_all add: counting_def)
  have later: "?F k = ?F 5" if "5 \<le> k" for k
    using after_fifth [OF assms, where m = m and j = "k - 5"] that by simp
  have a: "countdown (start c w) = 5" "status (start c w) = Countdown"
    using before(1) [of 0] before(3) [of 0] by simp_all
  have b: "map (\<lambda>k. countdown (?F k)) [1, 2, 3, 4, 5] = [4, 3, 2, 1, 0]"
    using before(1) [of 1] before(1) [of 2] before(1) [of 3] before(1) [of 4] five(1) by simp
  have c: "\<forall>k < 5. recorders (?F k) = recorders w \<and> status (?F k) = Countdown"
    using before(2,3) by simp
  have d: "\<forall>k \<le> 5. now w + 1000 * k \<le> now (?F k)"
  proof (intro allI impI)
    fix k :: nat
    assume "k \<le> 5"
    then consider "k \<le> 4" | "k = 5" by linarith
    then show "now w + 1000 * k \<le> now (?F k)"
      using before(4) five(2) by cases simp_all
  qed
  have e: "\<forall>k \<ge> 5. ?F k = ?F 5"
    by (intro allI impI) (rule later)
  have g: "\<forall>k \<ge> 5. length (recorders (?F k)) =
      length (recorders w) + (if has_MediaRecorder m \<and> constructor_throws m = None then 1 else 0)"
  proof (intro allI impI)
    fix k :: nat
    assume "5 \<le> k"
    then have "?F k = ?F 5"
      by (rule later)
    then show "length (recorders (?F k)) =
      length (recorders w) + (if has_MediaRecorder m \<and> constructor_throws m = None then 1 else 0)"
      by (simp only: five(4))
  qed
  show ?thesis
    using a b c d e g five(3) by (intro conjI)
qed

text \<open>The theorem on the fresh component, with the interval fired up to nine times.\<close>

theorem countdown_then_one_capture_witness:
  "fresh_handles initial \<and> fst (ensureStream Granted initial) = Inr 0 \<and>
   map (\<lambda>k. countdown ((fire_timer browser 1 ^^ k) (start Granted initial))) [1, 2, 3, 4, 5] = [4, 3, 2, 1, 0] \<and>
   length (recorders ((fire_timer browser 1 ^^ 4) (start Granted initial))) = 0 \<and>
   length (recorders ((fire_timer browser 1 ^^ 5) (start Granted initial))) = 1 \<and>
   length (recorders ((fire_timer browser 1 ^^ 9) (start Granted initial))) = 1 \<and>
   status ((fire_timer browser 1 ^^ 5) (start Granted initial)) = Recording"
proof -
  have f: "fresh_handles initial"
    by (simp add: fresh_handles_def initial_def)
  have e: "fst (ensureStream Granted initial) = Inr 0"
    by (simp add: ensureStream_def initial_def)
  have n: "next_timer initial = 1" "recorders initial = []"
    by (simp_all add: initial_def)
  have b: "has_MediaRecorder browser \<and> constructor_throws browser = None"
    by (simp add: browser_def)
  note t = countdown_then_one_capture [OF f e, of browser, unfolded n]
  have four: "recorders ((fire_timer browser 1 ^^ 4) (start Granted initial)) = []"
    using conjunct1 [OF conjunct2 [OF conjunct2 [OF conjunct2 [OF t]]], rule_format, of 4] by simp
  have five: "length (recorders ((fire_timer browser 1 ^^ 5) (start Granted initial))) = 1"
    using conjunct1 [OF conjunct2 [OF conjunct2 [OF conjunct2 [OF conjunct2 [OF conjunct2 [OF conjunct2 [OF t]]]]]], rule_format, of 5] b
    by simp
  have nine: "length (recorders ((fire_timer browser 1 ^^ 9) (start Granted initial))) = 1"
    using conjunct1 [OF conjunct2 [OF conjunct2 [OF conjunct2 [OF conjunct2 [OF conjunct2 [OF conjunct2 [OF t]]]]]], rule_format, of 9] b
    by simp
  have st: "status ((fire_timer browser 1 ^^ 5) (start Granted initial)) = Recording"
    using conjunct2 [OF conjunct2 [OF conjunct2 [OF conjunct2 [OF conjunct2 [OF conjunct2 [OF conjunct2 [OF t]]]]]]] works_browser
    by simp
  have seq: "map (\<lambda>k. countdown ((fire_timer browser 1 ^^ k) (start Granted initial))) [1, 2, 3, 4, 5] = [4, 3, 2, 1, 0]"
    by (rule conjunct1 [OF conjunct2 [OF conjunct2 [OF t]]])
  show ?thesis
    using f e seq four five nine st by (intro conjI) simp_all
qed

text \<open>
  Claim C4 on the code. The countdown callback's only guard is the clearing of the
  interval whose handle is in \<^verbatim>\<open>countdownTimerRef\<close>, and the deadline of a capture
  stays pending when the platform halts its encoder. So \<^verbatim>\<open>start\<close> followed by
  waiting does not always lead to exactly one capture. In the first run, with every
  timer fired when it is due, an earlier capture was halted by the platform; the new
  countdown shows 4 and 3, then the old deadline fires and \<^verbatim>\<open>stop\<close> clears the new
  interval: no timer is left, the status stays \<open>Countdown\<close> with the counter at 3,
  and no capture begins. In the second run two calls of \<^verbatim>\<open>start\<close> follow each other:
  the first interval, at zero, clears the second one instead of itself, so it keeps
  firing and begins a capture each time, three of them by the seventh second.
\<close>

theorem countdown_cancelled_or_repeated:
  "timely plain_runtime stale_wait initial \<and>
   countdown (run plain_runtime (take 11 stale_wait) initial) = 5 \<and>
   countdown (run plain_runtime (take 12 stale_wait) initial) = 4 \<and>
   countdown (run plain_runtime (take 13 stale_wait) initial) = 3 \<and>
   countdown (run plain_runtime stale_wait initial) = 3 \<and>
   status (run plain_runtime stale_wait initial) = Countdown \<and>
   timers (run plain_runtime stale_wait initial) = [] \<and>
   map rec_state (recorders (run plain_runtime stale_wait initial)) = [RInactive] \<and>
   length (recorders (run plain_runtime (take 9 stale_wait) initial)) = 1 \<and>
   now (run plain_runtime stale_wait initial) = 65000 \<and>
   timely plain_runtime double_start initial \<and>
   length (recorders (run plain_runtime (take 10 double_start) initial)) = 0 \<and>
   length (recorders (run plain_runtime (take 11 double_start) initial)) = 1 \<and>
   length (recorders (run plain_runtime (take 12 double_start) initial)) = 2 \<and>
   map rec_state (recorders (run plain_runtime double_start initial)) =
     [RRecording, RRecording, RRecording] \<and>
   countdown (run plain_runtime double_start initial) = - 2 \<and>
   now (run plain_runtime double_start initial) = 7000"
  by (simp add: stale_wait_def double_start_def overlapping_starts_def halted_capture_def exec_defs)

section \<open>One encoder at a time\<close>

lemma live_states: "live_encoders w = length (filter (\<lambda>q. q = RRecording) (states w))"
  by (simp add: live_encoders_def states_def filter_map comp_def)

















lemma quiet_shrinks: "quiet w w' \<Longrightarrow> shrinks w w'"
  by (simp add: quiet_def shrinks_def live_states interval_handles_def)





































section \<open>The timers of a capture\<close>

lemma same_refl: "same_session w w"
  by (simp add: same_session_def)

lemma same_trans: "same_session w w' \<Longrightarrow> same_session w' w'' \<Longrightarrow> same_session w w''"
  by (simp add: same_session_def)

lemma same_tick: "same_session w (tick x w)"
  by (cases x) (simp add: same_session_def tick_def Let_def)

lemma same_fold_tick: "same_session w (fold tick xs w)"
proof (induction xs arbitrary: w)
  case Nil
  show ?case by (simp add: same_refl)
next
  case (Cons x xs)
  show ?case
    using same_trans [OF same_tick [of w x] Cons.IH [of "tick x w"]] by simp
qed

lemma same_animation_frame: "same_session w (animation_frame w)"
proof -
  have "same_session w (w\<lparr>frames := []\<rparr>)"
    by (simp add: same_session_def)
  then show ?thesis
    unfolding animation_frame_def by (rule same_trans) (rule same_fold_tick)
qed

lemma same_presentation: "is_presentation e \<Longrightarrow> same_session w (step rt e w)"
  by (cases e) (simp_all add: same_animation_frame, simp add: same_session_def)

lemma same_run: "list_all is_presentation es \<Longrightarrow> same_session w (run rt es w)"
proof (induction es arbitrary: w)
  case Nil
  show ?case by (simp add: run_def same_refl)
next
  case (Cons e es)
  have "same_session w (step rt e w)"
    using Cons.prems by (simp add: same_presentation)
  moreover have "same_session (step rt e w) (run rt es (step rt e w))"
    using Cons.prems by (intro Cons.IH) simp
  ultimately have "same_session w (run rt es (step rt e w))"
    by (rule same_trans)
  then show ?case
    by (simp add: run_def)
qed

lemma lookup_cleared:
  "Some h = a \<or> Some h = b \<Longrightarrow> map_of (cleared a b ts) h = None"
  by (auto simp: cleared_def map_of_eq_None_iff)

lemma stop_cancels:
  assumes "stopTimerRef w = Some h \<or> countdownTimerRef w = Some h"
  shows "map_of (timers (stop w)) h = None" and "map_of (timers (cleanup seen w)) h = None"
    and "fire_timer m h (stop w) = stop w"
proof -
  show a: "map_of (timers (stop w)) h = None"
    using assms by (auto simp: stop_eq intro: lookup_cleared)
  show "map_of (timers (cleanup seen w)) h = None"
    using assms by (auto simp: cleanup_eq intro: lookup_cleared)
  show "fire_timer m h (stop w) = stop w"
    by (rule fire_absent [OF a])
qed

lemma fire_deadline:
  assumes "map_of (timers w) h = Some (StopTimeout d)"
  shows "fire_timer m h w = stop ((clear_timer h w)\<lparr>now := max (now w) d\<rparr>)"
  using assms by (simp add: fire_timer_def)

lemma stale_deadline_spares_session:
  assumes idle: "\<forall>r. recorderRef w = Some r \<longrightarrow> \<not> is_recording w r"
    and look: "map_of (timers w) h = Some (StopTimeout d)"
  shows "recorders (fire_timer m h w) = recorders w" "status (fire_timer m h w) = status w"
    "recordedBlob (fire_timer m h w) = recordedBlob w" "blobUrl (fire_timer m h w) = blobUrl w"
    "chunksRef (fire_timer m h w) = chunksRef w" "streams (fire_timer m h w) = streams w"
proof -
  have "halted (recorderRef w) (recorders w) = recorders w"
    using idle by (cases "recorderRef w") (auto simp: halted_def is_recording_def)
  then show "recorders (fire_timer m h w) = recorders w"
    by (simp add: fire_deadline [OF look] stop_eq clear_timer_def)
  show "status (fire_timer m h w) = status w" "recordedBlob (fire_timer m h w) = recordedBlob w"
    "blobUrl (fire_timer m h w) = blobUrl w" "chunksRef (fire_timer m h w) = chunksRef w"
    "streams (fire_timer m h w) = streams w"
    by (simp_all add: fire_deadline [OF look] stop_eq clear_timer_def)
qed


lemma beginRecording_refs:
  assumes "works m"
  shows "recorderRef (beginRecording m s w) = Some (length (recorders w))"
    and "stopTimerRef (beginRecording m s w) = Some (next_timer w)"
  using assms
  by (simp_all add: beginRecording_def new_MediaRecorder_def MediaRecorder_start_def set_timer_def
      works_def Let_def)

lemma deadline_after_capture:
  assumes m: "works m" and f: "fresh_handles w" and p: "list_all is_presentation es"
  shows "status (beginRecording m s w) = Recording"
    and "recorderRef (run rt es (beginRecording m s w)) = Some (length (recorders w))"
    and "is_recording (run rt es (beginRecording m s w)) (length (recorders w))"
    and "stopTimerRef (run rt es (beginRecording m s w)) = Some (next_timer w)"
    and "map_of (timers (run rt es (beginRecording m s w))) (next_timer w) =
           Some (StopTimeout (now w + 60000))"
    and "status (run rt es (beginRecording m s w)) = Recording"
    and "\<not> is_recording (fire_timer m' (next_timer w) (run rt es (beginRecording m s w)))
           (length (recorders w))"
    and "now w + 60000 \<le> now (fire_timer m' (next_timer w) (run rt es (beginRecording m s w)))"
    and "status (deliver_stop (length (recorders w))
           (fire_timer m' (next_timer w) (run rt es (beginRecording m s w)))) = Finished"
    and "recordedBlob (deliver_stop (length (recorders w))
           (fire_timer m' (next_timer w) (run rt es (beginRecording m s w)))) \<noteq> None"
proof -
  let ?r = "length (recorders w)" and ?h = "next_timer w"
  let ?w0 = "beginRecording m s w"
  let ?w1 = "run rt es ?w0"
  let ?w2 = "fire_timer m' ?h ?w1"
  have m': "has_MediaRecorder m \<and> constructor_throws m = None" "start_throws m = None"
    using m by (simp_all add: works_def)
  show st0: "status ?w0 = Recording"
    using m by (simp add: beginRecording_status)
  have same: "same_session ?w0 ?w1"
    by (rule same_run [OF p])
  have rec0: "rec_state (recorders ?w0 ! ?r) = RRecording" "?r < length (recorders ?w0)"
    using m' by (simp_all add: beginRecording_recorders)
  have tm0: "timers ?w0 = timers w @ [(?h, StopTimeout (now w + 60000))]"
    using m by (simp add: beginRecording_timers)
  show ref1: "recorderRef ?w1 = Some ?r"
    using same beginRecording_refs(1) [OF m] by (simp add: same_session_def)
  show rec1: "is_recording ?w1 ?r"
    using same rec0 by (simp add: same_session_def is_recording_def)
  show "stopTimerRef ?w1 = Some ?h"
    using same beginRecording_refs(2) [OF m] by (simp add: same_session_def)
  show look: "map_of (timers ?w1) ?h = Some (StopTimeout (now w + 60000))"
    using same tm0 fresh_lookup [OF f] by (simp add: same_session_def)
  show "status ?w1 = Recording"
    using same st0 by (simp add: same_session_def)
  have fire: "?w2 = stop ((clear_timer ?h ?w1)\<lparr>now := max (now ?w1) (now w + 60000)\<rparr>)"
    by (rule fire_deadline [OF look])
  have rec2: "recorders ?w2 =
      (recorders ?w1)[?r := (recorders ?w1 ! ?r)\<lparr>rec_state := RInactive, stop_queued := True\<rparr>]"
    using ref1 rec1 by (simp add: fire stop_eq clear_timer_def halted_def is_recording_def)
  have len: "?r < length (recorders ?w1)"
    using rec1 by (simp add: is_recording_def)
  show "\<not> is_recording ?w2 ?r"
    using len by (simp add: rec2 is_recording_def)
  show "now w + 60000 \<le> now ?w2"
    by (simp add: fire stop_eq)
  have queued: "?r < length (recorders ?w2) \<and> stop_queued (recorders ?w2 ! ?r)"
    using len by (simp add: rec2)
  show "status (deliver_stop ?r ?w2) = Finished"
    using queued by (simp add: deliver_stop_def onstop_def createObjectURL_def Let_def)
  show "recordedBlob (deliver_stop ?r ?w2) \<noteq> None"
    using queued by (simp add: deliver_stop_def onstop_def createObjectURL_def Let_def)
qed


text \<open>
  The clock of a timely run does not pass a pending deadline: across any
  presentation-clock frames and passing of time after a capture has begun, no more
  than 60000 ms have passed, and the deadline fires at exactly that time.
\<close>

lemma now_tick: "now (tick x w) = now w"
  by (cases x) (simp add: tick_def Let_def)

lemma now_fold_tick: "now (fold tick xs w) = now w"
  by (induction xs arbitrary: w) (simp_all add: now_tick)

lemma now_animation_frame: "now (animation_frame w) = now w"
  by (simp add: animation_frame_def now_fold_tick)

lemma clock_before_due:
  assumes "list_all is_presentation es" and "timely rt es w"
    and "(h, t) \<in> set (timers w)" and "now w \<le> due_at t"
  shows "now (run rt es w) \<le> due_at t"
  using assms
proof (induction es arbitrary: w)
  case Nil
  then show ?case by (simp add: run_def)
next
  case (Cons e es)
  have p: "is_presentation e" "list_all is_presentation es"
    using Cons.prems(1) by simp_all
  have t: "on_time e w" "timely rt es (step rt e w)"
    using Cons.prems(2) by simp_all
  have same: "timers (step rt e w) = timers w"
    using same_presentation [OF p(1), of w rt] by (simp add: same_session_def)
  have "now (step rt e w) \<le> due_at t"
  proof (cases e)
    case AnimationFrame
    then show ?thesis
      using Cons.prems(4) by (simp add: now_animation_frame)
  next
    case (Advance dt)
    then have "list_all (\<lambda>(i, t). now w + dt \<le> due_at t) (timers w)"
      using t(1) by simp
    then show ?thesis
      using Cons.prems(3) Advance by (auto simp: list_all_iff)
  qed (use p(1) in simp_all)
  then have "now (run rt es (step rt e w)) \<le> due_at t"
    using p(2) t(2) Cons.prems(3) same by (intro Cons.IH) simp_all
  then show ?case
    by (simp add: run_def)
qed

lemma deadline_on_time:
  assumes m: "works m" and f: "fresh_handles w" and p: "list_all is_presentation es"
    and t: "timely rt es (beginRecording m s w)"
  shows "now (run rt es (beginRecording m s w)) \<le> now w + 60000"
    and "is_recording (run rt es (beginRecording m s w)) (length (recorders w))"
    and "now (fire_timer m' (next_timer w) (run rt es (beginRecording m s w))) = now w + 60000"
    and "\<not> is_recording (fire_timer m' (next_timer w) (run rt es (beginRecording m s w)))
           (length (recorders w))"
proof -
  let ?w0 = "beginRecording m s w"
  let ?w1 = "run rt es ?w0"
  note d = deadline_after_capture [OF m f p]
  have tm0: "timers ?w0 = timers w @ [(next_timer w, StopTimeout (now w + 60000))]"
    using m by (simp add: beginRecording_timers)
  have n0: "now ?w0 = now w"
    by (simp add: beginRecording_keeps)
  show le: "now ?w1 \<le> now w + 60000"
    using clock_before_due [OF p t, of "next_timer w" "StopTimeout (now w + 60000)"] tm0 n0
    by simp
  show "is_recording ?w1 (length (recorders w))"
    by (rule d(3))
  have fire: "fire_timer m' (next_timer w) ?w1 =
      stop ((clear_timer (next_timer w) ?w1)\<lparr>now := max (now ?w1) (now w + 60000)\<rparr>)"
    by (rule fire_deadline [OF d(5)])
  show "now (fire_timer m' (next_timer w) ?w1) = now w + 60000"
    using le by (simp add: fire stop_eq max_def)
  show "\<not> is_recording (fire_timer m' (next_timer w) ?w1) (length (recorders w))"
    by (rule d(7))
qed

text \<open>
  What holds of the two timers. \<^verbatim>\<open>stop\<close> and \<^verbatim>\<open>cleanup\<close> cancel the timers whose
  handles are in \<^verbatim>\<open>stopTimerRef\<close> and \<^verbatim>\<open>countdownTimerRef\<close>: they are no longer pending
  and firing them runs nothing. A deadline that fires while the encoder in
  \<^verbatim>\<open>recorderRef\<close> is not recording changes no encoder, nor the status, the artifact,
  its URL, the chunks or the streams. After a capture has begun in a browser where
  nothing throws, and across any presentation-clock frames and passing of time, the
  encoder is recording, the status is \<open>Recording\<close> and the deadline is pending, due
  60000 ms after the capture began; when it fires, not before that time, the encoder
  stops at once, and the delivery of its stop event sets the status to \<open>Finished\<close>
  with an artifact.
\<close>

theorem stop_cancels_and_deadline_stops:
  "(\<forall>h. stopTimerRef w = Some h \<or> countdownTimerRef w = Some h \<longrightarrow>
        map_of (timers (stop w)) h = None \<and> map_of (timers (cleanup seen w)) h = None \<and>
        fire_timer m h (stop w) = stop w) \<and>
   ((\<forall>r. recorderRef w = Some r \<longrightarrow> \<not> is_recording w r) \<longrightarrow>
      (\<forall>h d. map_of (timers w) h = Some (StopTimeout d) \<longrightarrow>
         recorders (fire_timer m h w) = recorders w \<and> status (fire_timer m h w) = status w \<and>
         recordedBlob (fire_timer m h w) = recordedBlob w \<and> blobUrl (fire_timer m h w) = blobUrl w \<and>
         chunksRef (fire_timer m h w) = chunksRef w \<and> streams (fire_timer m h w) = streams w)) \<and>
   (works m \<and> fresh_handles w \<and> list_all is_presentation es \<longrightarrow>
      status (beginRecording m s w) = Recording \<and>
      recorderRef (run rt es (beginRecording m s w)) = Some (length (recorders w)) \<and>
      is_recording (run rt es (beginRecording m s w)) (length (recorders w)) \<and>
      stopTimerRef (run rt es (beginRecording m s w)) = Some (next_timer w) \<and>
      map_of (timers (run rt es (beginRecording m s w))) (next_timer w) =
        Some (StopTimeout (now w + 60000)) \<and>
      status (run rt es (beginRecording m s w)) = Recording \<and>
      \<not> is_recording (fire_timer m' (next_timer w) (run rt es (beginRecording m s w)))
          (length (recorders w)) \<and>
      now w + 60000 \<le> now (fire_timer m' (next_timer w) (run rt es (beginRecording m s w))) \<and>
      status (deliver_stop (length (recorders w))
        (fire_timer m' (next_timer w) (run rt es (beginRecording m s w)))) = Finished \<and>
      recordedBlob (deliver_stop (length (recorders w))
        (fire_timer m' (next_timer w) (run rt es (beginRecording m s w)))) \<noteq> None)"
proof (intro conjI allI impI)
  fix h
  assume a: "stopTimerRef w = Some h \<or> countdownTimerRef w = Some h"
  show "map_of (timers (stop w)) h = None" "map_of (timers (cleanup seen w)) h = None"
    "fire_timer m h (stop w) = stop w"
    by (rule stop_cancels [OF a])+
next
  fix h d
  assume idle: "\<forall>r. recorderRef w = Some r \<longrightarrow> \<not> is_recording w r"
    and look: "map_of (timers w) h = Some (StopTimeout d)"
  show "recorders (fire_timer m h w) = recorders w" "status (fire_timer m h w) = status w"
    "recordedBlob (fire_timer m h w) = recordedBlob w" "blobUrl (fire_timer m h w) = blobUrl w"
    "chunksRef (fire_timer m h w) = chunksRef w" "streams (fire_timer m h w) = streams w"
    by (rule stale_deadline_spares_session [OF idle look])+
next
  assume a: "works m \<and> fresh_handles w \<and> list_all is_presentation es"
  then have m: "works m" and f: "fresh_handles w" and p: "list_all is_presentation es"
    by simp_all
  note d = deadline_after_capture [OF m f p]
  show "status (beginRecording m s w) = Recording"
    by (rule d(1))
  show "recorderRef (run rt es (beginRecording m s w)) = Some (length (recorders w))"
    by (rule d(2))
  show "is_recording (run rt es (beginRecording m s w)) (length (recorders w))"
    by (rule d(3))
  show "stopTimerRef (run rt es (beginRecording m s w)) = Some (next_timer w)"
    by (rule d(4))
  show "map_of (timers (run rt es (beginRecording m s w))) (next_timer w) =
        Some (StopTimeout (now w + 60000))"
    by (rule d(5))
  show "status (run rt es (beginRecording m s w)) = Recording"
    by (rule d(6))
  show "\<not> is_recording (fire_timer m' (next_timer w) (run rt es (beginRecording m s w)))
          (length (recorders w))"
    by (rule d(7))
  show "now w + 60000 \<le> now (fire_timer m' (next_timer w) (run rt es (beginRecording m s w)))"
    by (rule d(8))
  show "status (deliver_stop (length (recorders w))
        (fire_timer m' (next_timer w) (run rt es (beginRecording m s w)))) = Finished"
    by (rule d(9))
  show "recordedBlob (deliver_stop (length (recorders w))
        (fire_timer m' (next_timer w) (run rt es (beginRecording m s w)))) \<noteq> None"
    by (rule d(10))
qed


text \<open>
  These facts on a recording session that is stopped, on a deadline that finds its
  encoder halted, and on a capture followed by 30 seconds and a frame.
\<close>

theorem stop_cancels_and_deadline_stops_witness:
  "stopTimerRef (run plain_runtime (Start Granted # countdown_ticks 1) initial) = Some 2 \<and>
   map_of (timers (run plain_runtime (Start Granted # countdown_ticks 1) initial)) 2 =
     Some (StopTimeout 65000) \<and>
   map_of (timers (stop (run plain_runtime (Start Granted # countdown_ticks 1) initial))) 2 = None \<and>
   recorderRef (run plain_runtime halted_capture initial) = Some 0 \<and>
   \<not> is_recording (run plain_runtime halted_capture initial) 0 \<and>
   map_of (timers (run plain_runtime halted_capture initial)) 2 = Some (StopTimeout 65000) \<and>
   recorders (fire_timer browser 2 (run plain_runtime halted_capture initial)) =
     recorders (run plain_runtime halted_capture initial) \<and>
   works browser \<and> fresh_handles (snd (ensureStream Granted initial)) \<and>
   list_all is_presentation [Advance 30000, AnimationFrame] \<and>
   is_recording (run plain_runtime [Advance 30000, AnimationFrame]
      (beginRecording browser 0 (snd (ensureStream Granted initial)))) 0 \<and>
   \<not> is_recording (fire_timer browser 1 (run plain_runtime [Advance 30000, AnimationFrame]
      (beginRecording browser 0 (snd (ensureStream Granted initial))))) 0"
proof -
  let ?rec = "run plain_runtime (Start Granted # countdown_ticks 1) initial"
  let ?stale = "run plain_runtime halted_capture initial"
  let ?cam = "snd (ensureStream Granted initial)"
  let ?es = "[Advance 30000, AnimationFrame]"
  have r: "stopTimerRef ?rec = Some 2" "map_of (timers ?rec) 2 = Some (StopTimeout 65000)"
    by (simp_all add: exec_defs)
  have s: "recorderRef ?stale = Some 0" "\<not> is_recording ?stale 0"
    "map_of (timers ?stale) 2 = Some (StopTimeout 65000)"
    by (simp_all add: halted_capture_def exec_defs)
  have c: "works browser" "fresh_handles ?cam" "list_all is_presentation ?es"
    "length (recorders ?cam) = 0" "next_timer ?cam = 1"
    by (simp_all add: works_browser fresh_handles_def ensureStream_def initial_def)
  note t1 = conjunct1 [OF stop_cancels_and_deadline_stops [of ?rec None browser], rule_format, of 2]
  note t2 = conjunct1 [OF conjunct2 [OF stop_cancels_and_deadline_stops [of ?stale None browser]],
      rule_format, of 2 65000]
  note t3 = conjunct2 [OF conjunct2 [OF stop_cancels_and_deadline_stops
        [of ?cam None browser ?es 0 plain_runtime browser]], rule_format]
  have a1: "map_of (timers (stop ?rec)) 2 = None"
    using t1 r(1) by simp
  have idle: "\<And>q. recorderRef ?stale = Some q \<Longrightarrow> \<not> is_recording ?stale q"
    using s(1,2) by simp
  have a2: "recorders (fire_timer browser 2 ?stale) = recorders ?stale"
    using t2 [OF idle s(3)] by simp
  have a3: "is_recording (run plain_runtime ?es (beginRecording browser 0 ?cam)) 0"
    "\<not> is_recording (fire_timer browser 1 (run plain_runtime ?es (beginRecording browser 0 ?cam))) 0"
    using t3 c by simp_all
  show ?thesis
    using r s a1 a2 a3 c(1,2,3) by (intro conjI)
qed

text \<open>
  Claim C5 on the code. \<^verbatim>\<open>stop\<close> cancels the deadline, but the recorder's \<^verbatim>\<open>onstop\<close>
  does not, so the deadline of a capture whose encoder the platform halted stays
  pending; and when it fires, \<^verbatim>\<open>stop\<close> looks at the encoder that is in \<^verbatim>\<open>recorderRef\<close>
  by then, not at the one the deadline was armed for, and clears both timers. In
  both runs every timer fires when it is due, and the first capture begins at 5 s
  and its encoder is halted. In the first run a second capture begins at 15 s, with
  its own deadline due at 75 s; at 65 s the deadline of the first capture fires: its
  own encoder stopped long ago, and yet the firing stops the second encoder, 50
  seconds into its capture, and cancels the second deadline. In the second run a new
  countdown is two seconds old at 65 s and the encoder in \<^verbatim>\<open>recorderRef\<close> is the
  stopped one; the firing of the old deadline cancels that countdown.
\<close>

theorem stale_deadline_stops_next_capture:
  "timely plain_runtime (second_capture @ [TimerFires 2 browser]) initial \<and>
   map rec_state (recorders (run plain_runtime halted_capture initial)) = [RInactive] \<and>
   timers (run plain_runtime halted_capture initial) = [(2, StopTimeout 65000)] \<and>
   recorderRef (run plain_runtime second_capture initial) = Some 1 \<and>
   map rec_state (recorders (run plain_runtime second_capture initial)) = [RInactive, RRecording] \<and>
   status (run plain_runtime second_capture initial) = Recording \<and>
   now (run plain_runtime second_capture initial) = 15000 \<and>
   stopTimerRef (run plain_runtime second_capture initial) = Some 4 \<and>
   timers (run plain_runtime second_capture initial) =
     [(2, StopTimeout 65000), (4, StopTimeout 75000)] \<and>
   map rec_state (recorders (run plain_runtime (second_capture @ [TimerFires 2 browser]) initial)) =
     [RInactive, RInactive] \<and>
   now (run plain_runtime (second_capture @ [TimerFires 2 browser]) initial) = 65000 \<and>
   timers (run plain_runtime (second_capture @ [TimerFires 2 browser]) initial) = [] \<and>
   timely plain_runtime stale_wait initial \<and>
   recorderRef (run plain_runtime (take 13 stale_wait) initial) = Some 0 \<and>
   \<not> is_recording (run plain_runtime (take 13 stale_wait) initial) 0 \<and>
   timers (run plain_runtime (take 13 stale_wait) initial) =
     [(2, StopTimeout 65000), (3, CountdownInterval 3 0 65500)] \<and>
   timers (run plain_runtime stale_wait initial) = [] \<and>
   status (run plain_runtime stale_wait initial) = Countdown"
  by (simp add: second_capture_def stale_wait_def halted_capture_def exec_defs)

end
